theory Spec2Isabelle
  imports Main "HOL-Library.Word"
begin

section \<open>The DAWS event reporter (dawsReporter.h, dawsReporter.cpp)\<close>

text \<open>
  A \<open>Reporter\<close> is an event producer. Every reporter owns two report records, the
  current one (\<open>_lastRep\<close>) and one kept for overrun reports (\<open>_overRunRep\<close>). Pointers to
  these records travel through one process-wide queue of capacity 16 to a single
  consumer, which copies the record out and clears its \<open>timeStampIn\<close>. All reporters are
  chained in construction order through \<open>_nextReporter\<close>.

  The development below embeds the class as functions on an explicit program state: the
  static members of the class together with the storage of the reporter objects.
\<close>

subsection \<open>Data\<close>

text \<open>\<open>enum ReporterType : char\<close>. The constructors take it and no longer use it.\<close>

datatype ReporterType =
  SERVO_REP | MOTOR_REP | VL53_REP | NFC_REP | NTAG_REP | DEP_REP
  | ODO_REP | RA_REP | ACC_REP | QDEC_REP | AUTO_REP | BLE_REP

text \<open>\<open>enum EventType : byte\<close>, in declaration order; \<open>REPORT_OVERRUN\<close> is enumerator 0.\<close>

datatype EventType =
  REPORT_OVERRUN
  | LOCO_STOP
  | VL53_RANGE_CLOSE | VL53_RANGE_NORMAL | VL53_OUT_OF_RANGE | VL53_ERR
  | NTAG_NDEF | NTAG_NONDEF
  | MIFARE_C1K_FOUND | MIFARE_DEP_FOUND | MIFARE_DEP_MSG | MIFARE_DEP_PASSIVE
  | NFC_OTHER_FOUND | NFC_TAG_TYPE_UNKNOWN
  | RA_DISCOVERED | RA_STATE_CHANGE | RA_CONNECTED | RA_DISCONNECTED
  | BLE_SCAN_START | BLE_SCAN_DONE
  | BLE_PEER_FOUND | BLE_CONNECTED | BLE_SERVICES_AVAIL | BLE_CONNECT_FAIL | BLE_DISCONNECTED
  | ACC_STATE_CHANGE | ROTQ_ROT | ROTQ_ERR
  | SET_AUTO

text \<open>
  The numeric value of an enumerator: no enumerator has an initialiser, so they count up
  from 0. This is the value the conversion \<open>_overRunRep.info = repType\<close> stores.
\<close>

fun EventType_value :: "EventType \<Rightarrow> nat" where
  "EventType_value REPORT_OVERRUN = 0"
| "EventType_value LOCO_STOP = 1"
| "EventType_value VL53_RANGE_CLOSE = 2"
| "EventType_value VL53_RANGE_NORMAL = 3"
| "EventType_value VL53_OUT_OF_RANGE = 4"
| "EventType_value VL53_ERR = 5"
| "EventType_value NTAG_NDEF = 6"
| "EventType_value NTAG_NONDEF = 7"
| "EventType_value MIFARE_C1K_FOUND = 8"
| "EventType_value MIFARE_DEP_FOUND = 9"
| "EventType_value MIFARE_DEP_MSG = 10"
| "EventType_value MIFARE_DEP_PASSIVE = 11"
| "EventType_value NFC_OTHER_FOUND = 12"
| "EventType_value NFC_TAG_TYPE_UNKNOWN = 13"
| "EventType_value RA_DISCOVERED = 14"
| "EventType_value RA_STATE_CHANGE = 15"
| "EventType_value RA_CONNECTED = 16"
| "EventType_value RA_DISCONNECTED = 17"
| "EventType_value BLE_SCAN_START = 18"
| "EventType_value BLE_SCAN_DONE = 19"
| "EventType_value BLE_PEER_FOUND = 20"
| "EventType_value BLE_CONNECTED = 21"
| "EventType_value BLE_SERVICES_AVAIL = 22"
| "EventType_value BLE_CONNECT_FAIL = 23"
| "EventType_value BLE_DISCONNECTED = 24"
| "EventType_value ACC_STATE_CHANGE = 25"
| "EventType_value ROTQ_ROT = 26"
| "EventType_value ROTQ_ERR = 27"
| "EventType_value SET_AUTO = 28"

text \<open>
  Addresses of reporter objects are natural numbers; a \<open>Reporter*\<close> is an optional
  address, \<open>None\<close> being \<open>nullptr\<close>.
\<close>

type_synonym addr = nat
type_synonym Reporter_ptr = "addr option"

text \<open>
  \<open>report_t\<close>. On the 32-bit ARM targets of the firmware \<open>unsigned long\<close> and \<open>int\<close> are
  32 bits wide; \<open>info\<close> holds the bit pattern of the \<open>int\<close> (\<open>sint\<close> reads it).
\<close>

record report_t =
  repType :: EventType
  source :: Reporter_ptr
  timeStampIn :: "32 word"
  timeStampOut :: "32 word"
  info :: "32 word"

text \<open>
  The members of one \<open>Reporter\<close> object. dawsReporter.h declares \<open>_nextReporter\<close> and
  \<open>_id\<close>; the functions of dawsReporter.cpp use \<open>_lastRep\<close> and \<open>_overRunRep\<close> as
  \<open>report_t\<close> members of the object besides.
\<close>

record Reporter =
  nextReporter :: Reporter_ptr
  id_Reporter :: "8 word"
  lastRep :: report_t
  overRunRep :: report_t

text \<open>
  A \<open>report_t*\<close> as the code forms it: the address of the \<open>_lastRep\<close> or of the
  \<open>_overRunRep\<close> member of the reporter at an address.
\<close>

datatype report_ref = LastRepOf addr | OverRunRepOf addr

fun owner :: "report_ref \<Rightarrow> addr" where
  "owner (LastRepOf a) = a"
| "owner (OverRunRepOf a) = a"

text \<open>
  The program state: the object storage (\<open>heap\<close>, total, so that the storage of an
  object holds some content before its constructor runs) and the static members of the
  class. \<open>_overRunCount\<close> and \<open>_queueFullCount\<close> are \<open>volatile uint16_t\<close>, \<open>_lastId\<close> is
  a \<open>byte\<close>.
\<close>

record state =
  heap :: "addr \<Rightarrow> Reporter"
  lastInstantiated :: Reporter_ptr
  firstReporter :: Reporter_ptr
  lastId :: "8 word"
  reportQueue :: "report_ref list"
  overRunCount :: "16 word"
  queueFullCount :: "16 word"

text \<open>
  The state at program start. Static members without initialiser are zero-initialised,
  the two counters are initialised to 0, the queue is empty. The object storage is
  whatever \<open>h\<close> it is.
\<close>

definition init_state :: "(addr \<Rightarrow> Reporter) \<Rightarrow> state" where
  "init_state h =
     \<lparr>heap = h, lastInstantiated = None, firstReporter = None, lastId = 0,
      reportQueue = [], overRunCount = 0, queueFullCount = 0\<rparr>"

text \<open>Reading and writing through a \<open>report_t*\<close>.\<close>

fun deref :: "state \<Rightarrow> report_ref \<Rightarrow> report_t" where
  "deref s (LastRepOf a) = lastRep (heap s a)"
| "deref s (OverRunRepOf a) = overRunRep (heap s a)"

fun assign :: "report_ref \<Rightarrow> (report_t \<Rightarrow> report_t) \<Rightarrow> state \<Rightarrow> state" where
  "assign (LastRepOf a) f s =
     s\<lparr>heap := (heap s)(a := (heap s a)\<lparr>lastRep := f (lastRep (heap s a))\<rparr>)\<rparr>"
| "assign (OverRunRepOf a) f s =
     s\<lparr>heap := (heap s)(a := (heap s a)\<lparr>overRunRep := f (overRunRep (heap s a))\<rparr>)\<rparr>"

subsection \<open>The report queue\<close>

text \<open>
  \<open>_reportQueue\<close> is an \<open>rtos::Queue<report_t, 16>\<close>: a queue of pointers to reports.
  The class belongs to the mbed RTOS library and is not part of the repository; what
  the reporter relies on is its contract, which the specification states for the bounded
  channel. The capacity is the template argument of the definition in dawsReporter.cpp.

  Every call takes effect at one instant, and the state it is applied to holds all
  submissions that took effect before that instant. For \<open>try_get_for\<close> this is the instant
  at which the library call returns: a reference became available within the waiting time
  exactly when the queue is not empty then. The blocking that precedes this instant is
  \<open>await_report\<close> below.
\<close>

definition queue_capacity :: nat where
  "queue_capacity = 16"

text \<open>
  Modelled from the spec: \<open>rtos::Queue::try_put\<close>, of the mbed library. It does not block;
  it appends the reference behind those already queued and succeeds unless the capacity is
  reached, in which case it fails (\<open>None\<close>) and the queue stays as it is.
\<close>

definition try_put :: "report_ref \<Rightarrow> report_ref list \<Rightarrow> report_ref list option" where
  "try_put rp q = (if length q < queue_capacity then Some (q @ [rp]) else None)"

text \<open>
  Modelled from the spec: \<open>rtos::Queue::try_get_for\<close>, of the mbed library. It delivers the
  reference that was inserted first and removes it from the queue, or reports that none
  became available within the waiting time (\<open>None\<close>).
\<close>

definition try_get_for ::
  "32 word \<Rightarrow> report_ref list \<Rightarrow> (report_ref \<times> report_ref list) option" where
  "try_get_for waitTime q = (case q of [] \<Rightarrow> None | rsp # q' \<Rightarrow> Some (rsp, q'))"

subsection \<open>Construction and the chain of reporters\<close>

text \<open>\<open>Reporter::_link\<close>: \<open>_nextReporter = newReporter\<close> on the object \<open>this\<close>.\<close>

definition link :: "addr \<Rightarrow> Reporter_ptr \<Rightarrow> state \<Rightarrow> state" where
  "link this newReporter s =
     s\<lparr>heap := (heap s)(this := (heap s this)\<lparr>nextReporter := newReporter\<rparr>)\<rparr>"

text \<open>
  The part both constructors share, written once: the first reporter sets
  \<open>_firstReporter\<close>, a later one is linked behind \<open>_lastInstantiated\<close>. Calling \<open>_link\<close>
  through a null \<open>_lastInstantiated\<close> has no defined behaviour; the model returns \<open>None\<close>.
\<close>

definition chain_in :: "addr \<Rightarrow> state \<Rightarrow> state option" where
  "chain_in this s =
     (if firstReporter s = None then Some (s\<lparr>firstReporter := Some this\<rparr>)
      else (case lastInstantiated s of
              None \<Rightarrow> None
            | Some l \<Rightarrow> Some (link l (Some this) s)))"

text \<open>
  \<open>Reporter::Reporter(ReporterType type)\<close>, run on the storage at \<open>this\<close>. A member the
  constructor does not assign keeps the content of the storage.
\<close>

definition Reporter_new :: "addr \<Rightarrow> ReporterType \<Rightarrow> state \<Rightarrow> state option" where
  "Reporter_new this type s =
     (let s1 = s\<lparr>lastId := lastId s + 1\<rparr>;
          s2 = s1\<lparr>heap := (heap s1)(this := (heap s1 this)\<lparr>id_Reporter := lastId s1\<rparr>)\<rparr>
      in case chain_in this s2 of
           None \<Rightarrow> None
         | Some s3 \<Rightarrow>
             (let s4 = s3\<lparr>lastInstantiated := Some this\<rparr>;
                  s5 = link this None s4;
                  s6 = assign (LastRepOf this) (\<lambda>r. r\<lparr>timeStampIn := 0\<rparr>) s5;
                  s7 = assign (LastRepOf this) (\<lambda>r. r\<lparr>timeStampOut := 0\<rparr>) s6
              in Some s7))"

text \<open>\<open>Reporter::Reporter(ReporterType type, byte id)\<close>, the deprecated constructor.\<close>

definition Reporter_new_id :: "addr \<Rightarrow> ReporterType \<Rightarrow> 8 word \<Rightarrow> state \<Rightarrow> state option" where
  "Reporter_new_id this type ident s =
     (let s1 = s\<lparr>heap := (heap s)(this := (heap s this)\<lparr>id_Reporter := ident\<rparr>)\<rparr>
      in case chain_in this s1 of
           None \<Rightarrow> None
         | Some s2 \<Rightarrow>
             (let s3 = s2\<lparr>lastInstantiated := Some this\<rparr>;
                  s4 = link this None s3
              in Some s4))"

definition getNextReporter :: "addr \<Rightarrow> state \<Rightarrow> Reporter_ptr" where
  "getNextReporter this s = nextReporter (heap s this)"

definition getFirstReporter :: "state \<Rightarrow> Reporter_ptr" where
  "getFirstReporter s = firstReporter s"

definition getId :: "addr \<Rightarrow> state \<Rightarrow> 8 word" where
  "getId this s = id_Reporter (heap s this)"

subsection \<open>Submitting and retrieving reports\<close>

text \<open>
  \<open>Reporter::queueReport(EventType repType, int info)\<close>. \<open>now\<close> is the value \<open>micros()\<close>
  returns in the call. \<open>rp\<close> is the local pointer of the source.
\<close>

definition queueReport :: "addr \<Rightarrow> EventType \<Rightarrow> 32 word \<Rightarrow> 32 word \<Rightarrow> state \<Rightarrow> state" where
  "queueReport this repType_arg info_arg now s =
     (let overRun = (0 < timeStampIn (lastRep (heap s this)));
          rp = (if overRun then OverRunRepOf this else LastRepOf this);
          s1 = (if overRun
                then (assign rp (\<lambda>r. r\<lparr>repType := REPORT_OVERRUN,
                                         info := of_nat (EventType_value repType_arg)\<rparr>) s)
                       \<lparr>overRunCount := overRunCount s + 1\<rparr>
                else assign rp (\<lambda>r. r\<lparr>repType := repType_arg, info := info_arg\<rparr>) s);
          s2 = assign rp (\<lambda>r. r\<lparr>source := Some this, timeStampIn := now, timeStampOut := 0\<rparr>) s1
      in case try_put rp (reportQueue s2) of
           Some q' \<Rightarrow> s2\<lparr>reportQueue := q'\<rparr>
         | None \<Rightarrow> s2\<lparr>queueFullCount := queueFullCount s2 + 1\<rparr>)"

text \<open>
  \<open>Reporter::tryGetReport(report_t* rdp, duration_u32 waitTime)\<close>. \<open>rd\<close> is the caller's
  structure, which is no member of a reporter; the result is the returned flag, the
  caller's structure after the call and the new state. \<open>now\<close> is the value of \<open>micros()\<close>.
\<close>

definition tryGetReport_for ::
  "report_t \<Rightarrow> 32 word \<Rightarrow> 32 word \<Rightarrow> state \<Rightarrow> bool \<times> report_t \<times> state" where
  "tryGetReport_for rd waitTime now s =
     (case try_get_for waitTime (reportQueue s) of
        Some (rsp, q') \<Rightarrow>
          (let s1 = s\<lparr>reportQueue := q'\<rparr>;
               rd1 = rd\<lparr>repType := repType (deref s1 rsp)\<rparr>;
               rd2 = rd1\<lparr>source := source (deref s1 rsp)\<rparr>;
               rd3 = rd2\<lparr>info := info (deref s1 rsp)\<rparr>;
               rd4 = rd3\<lparr>timeStampIn := timeStampIn (deref s1 rsp)\<rparr>;
               rd5 = rd4\<lparr>timeStampOut := now\<rparr>;
               s2 = assign rsp (\<lambda>r. r\<lparr>timeStampOut := timeStampOut rd5\<rparr>) s1;
               s3 = assign rsp (\<lambda>r. r\<lparr>timeStampIn := 0\<rparr>) s2
           in (True, rd5, s3))
      | None \<Rightarrow> (False, rd, s))"

text \<open>\<open>Reporter::tryGetReport(report_t* rdp)\<close>: the same with a zero duration.\<close>

definition tryGetReport :: "report_t \<Rightarrow> 32 word \<Rightarrow> state \<Rightarrow> bool \<times> report_t \<times> state" where
  "tryGetReport rd now s = tryGetReport_for rd 0 now s"

subsection \<open>The consumer's wait\<close>

text \<open>
  \<open>tryGetReport_for\<close> above is applied to the state at the instant the call of
  \<open>try_get_for\<close> returns. What happens between the consumer's call and that instant is
  the blocking of the library queue. Its environment is the first submission, if any,
  that takes effect after the call has begun: \<open>(d, this, repType, info, now)\<close> is the call
  \<open>this->queueReport(repType, info)\<close> taking effect \<open>d\<close> ticks of the waiting clock after
  the beginning of the consumer's call, with \<open>micros()\<close> reading \<open>now\<close>.
\<close>

type_synonym arrival = "32 word \<times> addr \<times> EventType \<times> 32 word \<times> 32 word"

text \<open>The submission of the environment takes effect before the waiting time is over.\<close>

definition arrives_within :: "32 word \<Rightarrow> arrival option \<Rightarrow> bool" where
  "arrives_within waitTime env =
     (case env of None \<Rightarrow> False | Some (d, this, k, i, t) \<Rightarrow> d < waitTime)"

text \<open>
  Modelled from the spec: the blocking of \<open>rtos::Queue::try_get_for\<close>, of the mbed
  library. The call blocks the calling thread up to the waiting time, zero meaning
  that it polls and does not wait, until a reference is available. The result is the time the call
  has blocked and the state at the instant it returns: at once when the queue holds a
  reference; when the first submission takes effect, if that is before the waiting time
  is over (the queue is empty then, so the insertion succeeds); after the whole waiting
  time otherwise. Scheduling latency is not modelled.
\<close>

definition await_report :: "32 word \<Rightarrow> arrival option \<Rightarrow> state \<Rightarrow> 32 word \<times> state" where
  "await_report waitTime env s =
     (if reportQueue s \<noteq> [] then (0, s)
      else (case env of
              None \<Rightarrow> (waitTime, s)
            | Some (d, this, k, i, t) \<Rightarrow>
                if d < waitTime then (d, queueReport this k i t s) else (waitTime, s)))"

text \<open>
  The two forms of \<open>tryGetReport\<close> as the consumer's thread meets them: the time blocked
  in \<open>try_get_for\<close>, then the result of the function at the instant the library call
  returns. The form without a duration passes the duration 0.
\<close>

definition tryGetReport_for_blocking ::
  "report_t \<Rightarrow> 32 word \<Rightarrow> 32 word \<Rightarrow> arrival option \<Rightarrow> state
   \<Rightarrow> 32 word \<times> bool \<times> report_t \<times> state" where
  "tryGetReport_for_blocking rd waitTime now env s =
     (case await_report waitTime env s of
        (elapsed, s1) \<Rightarrow> (elapsed, tryGetReport_for rd waitTime now s1))"

definition tryGetReport_blocking ::
  "report_t \<Rightarrow> 32 word \<Rightarrow> arrival option \<Rightarrow> state \<Rightarrow> 32 word \<times> bool \<times> report_t \<times> state" where
  "tryGetReport_blocking rd now env s = tryGetReport_for_blocking rd 0 now env s"

subsection \<open>Clients of the class\<close>

text \<open>
  The pointer \<open>rp\<close> that a call of \<open>queueReport\<close> forms and hands to the queue (lemma
  \<open>reportQueue_queueReport\<close> below ties it to \<open>queueReport\<close>).
\<close>

definition queueReport_rp :: "addr \<Rightarrow> state \<Rightarrow> report_ref" where
  "queueReport_rp this s =
     (if 0 < timeStampIn (lastRep (heap s this)) then OverRunRepOf this else LastRepOf this)"

text \<open>
  A reporter is constructed by one of the two constructors; a start-up sequence is a list
  of constructions, abandoned at the first one without defined behaviour.
\<close>

datatype ctor = New addr ReporterType | NewId addr ReporterType "8 word"

fun ctor_addr :: "ctor \<Rightarrow> addr" where
  "ctor_addr (New this type) = this"
| "ctor_addr (NewId this type ident) = this"

fun construct :: "ctor \<Rightarrow> state \<Rightarrow> state option" where
  "construct (New this type) s = Reporter_new this type s"
| "construct (NewId this type ident) s = Reporter_new_id this type ident s"

fun construct_all :: "ctor list \<Rightarrow> state \<Rightarrow> state option" where
  "construct_all [] s = Some s"
| "construct_all (c # cs) s =
     (case construct c s of None \<Rightarrow> None | Some s' \<Rightarrow> construct_all cs s')"

text \<open>
  The enumeration loop of a client,
  \<open>for (r = getFirstReporter(); r != nullptr; r = r->getNextReporter())\<close>, started at
  the pointer \<open>r\<close>, with a bound on the number of iterations: the result is the list of
  reporters visited, or \<open>None\<close> when the loop has not reached \<open>nullptr\<close> within the bound.
\<close>

fun traverse :: "nat \<Rightarrow> state \<Rightarrow> Reporter_ptr \<Rightarrow> addr list option" where
  "traverse n s None = Some []"
| "traverse 0 s (Some a) = None"
| "traverse (Suc n) s (Some a) = map_option ((#) a) (traverse n s (getNextReporter a s))"

text \<open>
  Calls of producers and of the consumer in the order in which they take effect.
  \<open>QueueReport this repType info now\<close> is \<open>this->queueReport(repType, info)\<close> with
  \<open>micros()\<close> reading \<open>now\<close>; \<open>TryGetReportFor rd waitTime now\<close> is the consumer's call with
  the caller's structure \<open>rd\<close>.
\<close>

datatype call =
    QueueReport addr EventType "32 word" "32 word"
  | TryGetReportFor report_t "32 word" "32 word"

text \<open>
  Running a list of calls. Besides the final state the run records the references that
  entered the queue, in the order of their insertion, and for every call of
  \<open>tryGetReport\<close> that returned true the reference taken from the queue (the local
  \<open>rsp\<close>) with the record given to the caller.
\<close>

fun exec :: "call list \<Rightarrow> state \<Rightarrow> report_ref list \<times> (report_ref \<times> report_t) list \<times> state" where
  "exec [] s = ([], [], s)"
| "exec (QueueReport this k i now # cs) s =
     (case exec cs (queueReport this k i now s) of
        (ins, outs, s') \<Rightarrow>
          ((case try_put (queueReport_rp this s) (reportQueue s) of
              Some q' \<Rightarrow> [queueReport_rp this s]
            | None \<Rightarrow> []) @ ins, outs, s'))"
| "exec (TryGetReportFor rd waitTime now # cs) s =
     (case tryGetReport_for rd waitTime now s of
        (found, rd', s1) \<Rightarrow>
          (case exec cs s1 of
             (ins, outs, s') \<Rightarrow>
               (ins,
                (case try_get_for waitTime (reportQueue s) of
                   Some (rsp, q') \<Rightarrow> [(rsp, rd')]
                 | None \<Rightarrow> []) @ outs,
                s')))"

text \<open>Repeated submissions of one producer: kind, information and clock reading of each.\<close>

definition resubmissions :: "addr \<Rightarrow> (EventType \<times> 32 word \<times> 32 word) list \<Rightarrow> call list" where
  "resubmissions this subs = map (\<lambda>(k, i, now). QueueReport this k i now) subs"

subsection \<open>Invariants\<close>

text \<open>
  \<open>chain nxt p xs\<close>: following \<open>nxt\<close> from the pointer \<open>p\<close> passes exactly the addresses
  \<open>xs\<close>, in this order, and then reaches \<open>nullptr\<close>.
\<close>

fun chain :: "(addr \<Rightarrow> Reporter_ptr) \<Rightarrow> Reporter_ptr \<Rightarrow> addr list \<Rightarrow> bool" where
  "chain nxt p [] = (p = None)"
| "chain nxt p (a # as) = (p = Some a \<and> chain nxt (nxt a) as)"

text \<open>
  \<open>registry s xs\<close>: the static members and the \<open>_nextReporter\<close> links of state \<open>s\<close> hold
  the reporters \<open>xs\<close>, each once, in this order.
\<close>

definition registry :: "state \<Rightarrow> addr list \<Rightarrow> bool" where
  "registry s xs =
     (distinct xs
      \<and> chain (\<lambda>a. nextReporter (heap s a)) (firstReporter s) xs
      \<and> lastInstantiated s = (if xs = [] then None else Some (last xs)))"

text \<open>
  \<open>from_ref r rd\<close>: the record \<open>rd\<close> names the owner of the reference \<open>r\<close> as its source
  and, when \<open>r\<close> is a reference to an overrun record, has the kind \<open>REPORT_OVERRUN\<close>.
\<close>

fun from_ref :: "report_ref \<Rightarrow> report_t \<Rightarrow> bool" where
  "from_ref (LastRepOf a) rd = (source rd = Some a)"
| "from_ref (OverRunRepOf a) rd = (source rd = Some a \<and> repType rd = REPORT_OVERRUN)"

subsection \<open>Example storage\<close>

text \<open>
  Storage that is all zero, as that of objects with static storage duration before their
  constructors run, and storage holding left-over data.
\<close>

definition zero_report :: report_t where
  "zero_report =
     \<lparr>repType = REPORT_OVERRUN, source = None, timeStampIn = 0, timeStampOut = 0, info = 0\<rparr>"

definition zero_heap :: "addr \<Rightarrow> Reporter" where
  "zero_heap = (\<lambda>a. \<lparr>nextReporter = None, id_Reporter = 0,
                      lastRep = zero_report, overRunRep = zero_report\<rparr>)"

definition stale_heap :: "addr \<Rightarrow> Reporter" where
  "stale_heap = (\<lambda>a. \<lparr>nextReporter = Some 99, id_Reporter = 7,
                       lastRep = zero_report\<lparr>timeStampIn := 5\<rparr>,
                       overRunRep = zero_report\<lparr>timeStampIn := 7, info := 3\<rparr>\<rparr>)"

text \<open>
  One reporter constructed at address 10 on zeroed storage, and the same after its first
  report.
\<close>

definition one_rep :: state where
  "one_rep =
     (case Reporter_new 10 SERVO_REP (init_state zero_heap) of
        Some s \<Rightarrow> s
      | None \<Rightarrow> init_state zero_heap)"

definition one_pending :: state where
  "one_pending = queueReport 10 LOCO_STOP 7 100 one_rep"

text \<open>
  The same reporter after fifteen further reports before any retrieval: the queue holds
  sixteen references.
\<close>

definition full10 :: state where
  "full10 = snd (snd (exec (resubmissions 10 (replicate 15 (VL53_ERR, 9, 200))) one_pending))"

text \<open>
  Two reporters at addresses 10 and 20; the second one reports sixteen times, which
  fills the queue while the first one has reported nothing.
\<close>

definition two_reps :: state where
  "two_reps =
     (case construct_all [New 10 SERVO_REP, New 20 VL53_REP] (init_state zero_heap) of
        Some s \<Rightarrow> s
      | None \<Rightarrow> init_state zero_heap)"

definition two_pending :: state where
  "two_pending = queueReport 20 VL53_RANGE_CLOSE 3 100 two_reps"

definition full20 :: state where
  "full20 = snd (snd (exec (resubmissions 20 (replicate 15 (VL53_ERR, 9, 200))) two_pending))"

text \<open>
  A reporter with a pending report reports again, the consumer takes the first report,
  and the reporter reports a third time.
\<close>

definition interleaved :: "call list" where
  "interleaved =
     [QueueReport 10 VL53_ERR 9 200, TryGetReportFor zero_report 0 300,
      QueueReport 10 ROTQ_ROT 1 400]"

definition reuse_state :: state where
  "reuse_state = snd (snd (exec interleaved one_pending))"

text \<open>Calls of two reporters and of the consumer, interleaved.\<close>

definition mixed_calls :: "call list" where
  "mixed_calls =
     [QueueReport 10 LOCO_STOP 7 100, QueueReport 20 VL53_RANGE_CLOSE 3 150,
      QueueReport 10 VL53_ERR 9 200, TryGetReportFor zero_report 0 300,
      QueueReport 10 ROTQ_ROT 1 400, TryGetReportFor zero_report 0 500,
      TryGetReportFor zero_report 0 600]"

text \<open>A second reporter constructed with a given identifier.\<close>

definition two_reps_id :: state where
  "two_reps_id =
     (case Reporter_new_id 20 VL53_REP 200 one_rep of Some s \<Rightarrow> s | None \<Rightarrow> one_rep)"

text \<open>Either constructor run on storage that holds left-over data.\<close>

definition stale_new :: state where
  "stale_new =
     (case Reporter_new 10 SERVO_REP (init_state stale_heap) of
        Some s \<Rightarrow> s
      | None \<Rightarrow> init_state stale_heap)"

definition stale_new_id :: state where
  "stale_new_id =
     (case Reporter_new_id 10 SERVO_REP 200 (init_state stale_heap) of
        Some s \<Rightarrow> s
      | None \<Rightarrow> init_state stale_heap)"

section \<open>Properties\<close>

subsection \<open>Basic facts about the operations\<close>

lemma assign_simps [simp]:
  "reportQueue (assign r f s) = reportQueue s"
  "overRunCount (assign r f s) = overRunCount s"
  "queueFullCount (assign r f s) = queueFullCount s"
  "firstReporter (assign r f s) = firstReporter s"
  "lastInstantiated (assign r f s) = lastInstantiated s"
  "lastId (assign r f s) = lastId s"
  by (cases r; simp)+

lemma deref_assign: "deref (assign r f s) r' = (if r' = r then f (deref s r) else deref s r')"
  by (cases r; cases r'; simp)

lemma deref_upd [simp]:
  "deref (s\<lparr>reportQueue := q\<rparr>) r = deref s r"
  "deref (s\<lparr>overRunCount := c\<rparr>) r = deref s r"
  "deref (s\<lparr>queueFullCount := d\<rparr>) r = deref s r"
  by (cases r; simp)+

text \<open>The two paths of \<open>queueReport\<close>, with the record it writes spelled out.\<close>

lemma queueReport_overrun:
  assumes "timeStampIn (lastRep (heap s this)) \<noteq> 0"
  shows "queueReport this k i now s =
     (let s2 = (assign (OverRunRepOf this)
                  (\<lambda>r. \<lparr>repType = REPORT_OVERRUN, source = Some this, timeStampIn = now,
                         timeStampOut = 0, info = of_nat (EventType_value k)\<rparr>) s)
                 \<lparr>overRunCount := overRunCount s + 1\<rparr>
      in if length (reportQueue s) < 16
         then s2\<lparr>reportQueue := reportQueue s @ [OverRunRepOf this]\<rparr>
         else s2\<lparr>queueFullCount := queueFullCount s + 1\<rparr>)"
  using assms
  by (cases "heap s this")
    (simp add: queueReport_def try_put_def queue_capacity_def word_gt_0 Let_def fun_eq_iff)

lemma queueReport_fresh:
  assumes "timeStampIn (lastRep (heap s this)) = 0"
  shows "queueReport this k i now s =
     (let s2 = assign (LastRepOf this)
                  (\<lambda>r. \<lparr>repType = k, source = Some this, timeStampIn = now,
                         timeStampOut = 0, info = i\<rparr>) s
      in if length (reportQueue s) < 16
         then s2\<lparr>reportQueue := reportQueue s @ [LastRepOf this]\<rparr>
         else s2\<lparr>queueFullCount := queueFullCount s + 1\<rparr>)"
  using assms
  by (cases "heap s this")
    (simp add: queueReport_def try_put_def queue_capacity_def word_gt_0 Let_def fun_eq_iff)

text \<open>The two outcomes of \<open>tryGetReport\<close>.\<close>

lemma tryGetReport_for_Nil:
  "reportQueue s = [] \<Longrightarrow> tryGetReport_for rd w now s = (False, rd, s)"
  by (simp add: tryGetReport_for_def try_get_for_def)

lemma tryGetReport_for_Cons:
  "reportQueue s = rsp # q \<Longrightarrow>
   tryGetReport_for rd w now s =
     (True,
      \<lparr>repType = repType (deref s rsp), source = source (deref s rsp),
       timeStampIn = timeStampIn (deref s rsp), timeStampOut = now, info = info (deref s rsp)\<rparr>,
      assign rsp (\<lambda>r. r\<lparr>timeStampIn := 0, timeStampOut := now\<rparr>) (s\<lparr>reportQueue := q\<rparr>))"
  by (cases rsp; cases rd) (simp_all add: tryGetReport_for_def try_get_for_def Let_def fun_eq_iff)

text \<open>The example states, evaluated.\<close>

lemma one_rep_eq:
  "one_rep =
     \<lparr>heap = zero_heap(10 := \<lparr>nextReporter = None, id_Reporter = 1,
                               lastRep = zero_report, overRunRep = zero_report\<rparr>),
      lastInstantiated = Some 10, firstReporter = Some 10, lastId = 1,
      reportQueue = [], overRunCount = 0, queueFullCount = 0\<rparr>"
  by (simp add: one_rep_def Reporter_new_def chain_in_def init_state_def link_def
      zero_heap_def zero_report_def fun_eq_iff)

lemma one_pending_eq:
  "one_pending =
     \<lparr>heap = zero_heap(10 := \<lparr>nextReporter = None, id_Reporter = 1,
                               lastRep = \<lparr>repType = LOCO_STOP, source = Some 10,
                                          timeStampIn = 100, timeStampOut = 0, info = 7\<rparr>,
                               overRunRep = zero_report\<rparr>),
      lastInstantiated = Some 10, firstReporter = Some 10, lastId = 1,
      reportQueue = [LastRepOf 10], overRunCount = 0, queueFullCount = 0\<rparr>"
  by (simp add: one_pending_def one_rep_eq queueReport_fresh zero_report_def fun_eq_iff)

lemma one_rep_queue [simp]: "reportQueue one_rep = []"
  by (simp add: one_rep_eq)

lemma one_pending_queue [simp]: "reportQueue one_pending = [LastRepOf 10]"
  by (simp add: one_pending_eq)

lemma one_pending_lastRep [simp]:
  "lastRep (heap one_pending 10) =
     \<lparr>repType = LOCO_STOP, source = Some 10, timeStampIn = 100, timeStampOut = 0, info = 7\<rparr>"
  by (simp add: one_pending_eq)

subsection \<open>Retrieval that finds nothing\<close>

text \<open>
  C9. Whenever \<open>tryGetReport\<close> returns false, in either of its two forms, the caller's
  report structure is returned as it was passed and the program state (every reporter's
  records, both counters, the queue and the chain) is the state before the call.
\<close>

theorem tryGetReport_false_no_effect:
  "(\<not> fst (tryGetReport_for rd waitTime now s) \<longrightarrow>
      tryGetReport_for rd waitTime now s = (False, rd, s))
   \<and> (\<not> fst (tryGetReport rd now s) \<longrightarrow> tryGetReport rd now s = (False, rd, s))"
  by (cases "reportQueue s")
    (simp_all add: tryGetReport_def tryGetReport_for_Nil tryGetReport_for_Cons)

theorem tryGetReport_false_no_effect_witness:
  "\<not> fst (tryGetReport_for zero_report 5 9 one_rep)
   \<and> tryGetReport_for zero_report 5 9 one_rep = (False, zero_report, one_rep)
   \<and> \<not> fst (tryGetReport zero_report 9 one_rep)
   \<and> tryGetReport zero_report 9 one_rep = (False, zero_report, one_rep)"
  using tryGetReport_false_no_effect [where rd = zero_report and waitTime = 5 and now = 9
      and s = one_rep]
  by (simp add: tryGetReport_def tryGetReport_for_Nil)

subsection \<open>More facts about submissions\<close>

lemma heap_assign_other:
  "a \<noteq> owner r \<Longrightarrow> heap (assign r f s) a = heap s a"
  by (cases r) simp_all

lemma lastRep_assign_overRun [simp]:
  "lastRep (heap (assign (OverRunRepOf a) f s) b) = lastRep (heap s b)"
  by simp

lemma overRunRep_assign_last [simp]:
  "overRunRep (heap (assign (LastRepOf a) f s) b) = overRunRep (heap s b)"
  by simp

lemma queueReport_rp_overrun:
  "timeStampIn (lastRep (heap s this)) \<noteq> 0 \<Longrightarrow> queueReport_rp this s = OverRunRepOf this"
  by (simp add: queueReport_rp_def word_gt_0)

lemma queueReport_rp_fresh:
  "timeStampIn (lastRep (heap s this)) = 0 \<Longrightarrow> queueReport_rp this s = LastRepOf this"
  by (simp add: queueReport_rp_def)

lemma reportQueue_queueReport:
  "reportQueue (queueReport this k i now s) =
     (case try_put (queueReport_rp this s) (reportQueue s) of
        Some q' \<Rightarrow> q'
      | None \<Rightarrow> reportQueue s)"
  by (cases "timeStampIn (lastRep (heap s this)) = 0")
    (simp_all add: queueReport_fresh queueReport_overrun queueReport_rp_fresh
      queueReport_rp_overrun try_put_def queue_capacity_def Let_def)

lemma try_put_16:
  "try_put r q = (if length q < 16 then Some (q @ [r]) else None)"
  by (simp add: try_put_def queue_capacity_def)

lemma overRunCount_queueReport:
  "overRunCount (queueReport this k i now s) =
     (if timeStampIn (lastRep (heap s this)) \<noteq> 0 then overRunCount s + 1 else overRunCount s)"
  by (simp add: queueReport_fresh queueReport_overrun Let_def)

lemma queueFullCount_queueReport:
  "queueFullCount (queueReport this k i now s) =
     (if length (reportQueue s) < 16 then queueFullCount s else queueFullCount s + 1)"
  by (cases "timeStampIn (lastRep (heap s this)) = 0")
    (simp_all add: queueReport_fresh queueReport_overrun Let_def)

lemma counters_tryGetReport_for:
  "overRunCount (snd (snd (tryGetReport_for rd waitTime now s))) = overRunCount s
   \<and> queueFullCount (snd (snd (tryGetReport_for rd waitTime now s))) = queueFullCount s"
  by (cases "reportQueue s") (simp_all add: tryGetReport_for_Nil tryGetReport_for_Cons)

lemma counters_chain_in:
  "chain_in this s = Some s' \<Longrightarrow>
   overRunCount s' = overRunCount s \<and> queueFullCount s' = queueFullCount s
   \<and> reportQueue s' = reportQueue s"
  by (auto simp: chain_in_def link_def split: if_splits option.splits)

lemma counters_Reporter_new:
  "Reporter_new this type s = Some s' \<Longrightarrow>
   overRunCount s' = overRunCount s \<and> queueFullCount s' = queueFullCount s"
  by (auto simp: Reporter_new_def Let_def link_def split: option.splits dest!: counters_chain_in)

lemma counters_Reporter_new_id:
  "Reporter_new_id this type ident s = Some s' \<Longrightarrow>
   overRunCount s' = overRunCount s \<and> queueFullCount s' = queueFullCount s"
  by (auto simp: Reporter_new_id_def Let_def link_def split: option.splits dest!: counters_chain_in)

lemma heap_queueReport_other:
  "a \<noteq> this \<Longrightarrow> heap (queueReport this k i now s) a = heap s a"
  by (cases "timeStampIn (lastRep (heap s this)) = 0")
    (simp_all add: queueReport_fresh queueReport_overrun Let_def)

lemma heap_exec_resubmissions_other:
  "a \<noteq> this \<Longrightarrow> heap (snd (snd (exec (resubmissions this subs) s))) a = heap s a"
proof (induction subs arbitrary: s)
  case Nil
  then show ?case by (simp add: resubmissions_def)
next
  case (Cons x subs)
  obtain k i now where x: "x = (k, i, now)" by (cases x)
  have "snd (snd (exec (resubmissions this (x # subs)) s)) =
      snd (snd (exec (resubmissions this subs) (queueReport this k i now s)))"
    unfolding resubmissions_def x by (simp split: prod.splits)
  then show ?case using Cons by (simp add: heap_queueReport_other)
qed

text \<open>A 16-bit counter below 65535 does not wrap when it is incremented.\<close>

lemma word16_inc_le: "(x::16 word) \<noteq> 65535 \<Longrightarrow> x \<le> x + 1"
proof -
  assume ne: "x \<noteq> 65535"
  have "unat x \<noteq> 65535"
  proof
    assume "unat x = 65535"
    then have "word_of_nat (unat x) = (word_of_nat 65535 :: 16 word)" by simp
    then show False using ne by simp
  qed
  moreover have "unat x < 65536" using unsigned_less [of x] by simp
  ultimately show ?thesis by (simp add: no_olen_add_nat)
qed

text \<open>
  Repeated submissions of a reporter whose current record is unacknowledged, with no
  retrieval in between.
\<close>

lemma exec_QueueReport_overrun:
  assumes "timeStampIn (lastRep (heap s this)) \<noteq> 0"
  shows "exec (QueueReport this k i now # cs) s =
     (case exec cs (queueReport this k i now s) of
        (ins, outs, s') \<Rightarrow>
          ((if length (reportQueue s) < 16 then [OverRunRepOf this] else []) @ ins, outs, s'))"
  using assms by (simp add: queueReport_rp_overrun try_put_16 split: prod.splits)

lemma exec_resubmissions:
  assumes "timeStampIn (lastRep (heap s this)) \<noteq> 0"
  shows "fst (exec (resubmissions this subs) s) =
           replicate (min (length subs) (16 - length (reportQueue s))) (OverRunRepOf this)
         \<and> fst (snd (exec (resubmissions this subs) s)) = []
         \<and> reportQueue (snd (snd (exec (resubmissions this subs) s))) =
             reportQueue s
             @ replicate (min (length subs) (16 - length (reportQueue s))) (OverRunRepOf this)
         \<and> lastRep (heap (snd (snd (exec (resubmissions this subs) s))) this) =
             lastRep (heap s this)
         \<and> overRunCount (snd (snd (exec (resubmissions this subs) s))) =
             overRunCount s + of_nat (length subs)"
  using assms
proof (induction subs arbitrary: s)
  case Nil
  then show ?case by (simp add: resubmissions_def)
next
  case (Cons x subs)
  obtain k i now where x: "x = (k, i, now)" by (cases x)
  let ?s1 = "queueReport this k i now s"
  have s1: "timeStampIn (lastRep (heap ?s1 this)) \<noteq> 0"
    using Cons.prems by (simp add: queueReport_overrun Let_def)
  have q1: "reportQueue ?s1 =
      (if length (reportQueue s) < 16 then reportQueue s @ [OverRunRepOf this] else reportQueue s)"
    using Cons.prems by (simp add: queueReport_overrun Let_def)
  have l1: "lastRep (heap ?s1 this) = lastRep (heap s this)"
    using Cons.prems by (simp add: queueReport_overrun Let_def)
  have c1: "overRunCount ?s1 = overRunCount s + 1"
    using Cons.prems by (simp add: queueReport_overrun Let_def)
  have e: "exec (resubmissions this (x # subs)) s =
     (case exec (resubmissions this subs) ?s1 of
        (ins, outs, s') \<Rightarrow>
          ((if length (reportQueue s) < 16 then [OverRunRepOf this] else []) @ ins, outs, s'))"
    using Cons.prems unfolding resubmissions_def x
    by (simp add: exec_QueueReport_overrun del: exec.simps)
  obtain ins outs s' where r: "exec (resubmissions this subs) ?s1 = (ins, outs, s')"
    by (cases "exec (resubmissions this subs) ?s1")
  let ?m = "min (length subs) (16 - length (reportQueue ?s1))"
  from Cons.IH [OF s1] r
  have ih: "ins = replicate ?m (OverRunRepOf this)" "outs = []"
    "reportQueue s' = reportQueue ?s1 @ replicate ?m (OverRunRepOf this)"
    "lastRep (heap s' this) = lastRep (heap s this)"
    "overRunCount s' = overRunCount s + 1 + of_nat (length subs)"
    by (simp_all add: l1 c1)
  show ?case
  proof (cases "length (reportQueue s) < 16")
    case True
    then have m: "min (Suc (length subs)) (16 - length (reportQueue s)) =
        Suc (min (length subs) (15 - length (reportQueue s)))"
      by arith
    show ?thesis using True ih unfolding e r
      by (simp add: q1 m)
  next
    case False
    then have m: "min (Suc (length subs)) (16 - length (reportQueue s)) = 0"
      by arith
    show ?thesis using False ih unfolding e r
      by (simp add: q1 m)
  qed
qed

lemma exec_resubmissions_overRunRep:
  assumes "timeStampIn (lastRep (heap s this)) \<noteq> 0" and "subs \<noteq> []"
  shows "overRunRep (heap (snd (snd (exec (resubmissions this subs) s))) this) =
           (case last subs of (k, i, now) \<Rightarrow>
              \<lparr>repType = REPORT_OVERRUN, source = Some this, timeStampIn = now,
               timeStampOut = 0, info = of_nat (EventType_value k)\<rparr>)"
  using assms
proof (induction subs arbitrary: s)
  case Nil
  then show ?case by simp
next
  case (Cons x subs)
  obtain k i now where x: "x = (k, i, now)" by (cases x)
  let ?s1 = "queueReport this k i now s"
  have s1: "timeStampIn (lastRep (heap ?s1 this)) \<noteq> 0"
    using Cons.prems by (simp add: queueReport_overrun Let_def)
  have o1: "overRunRep (heap ?s1 this) =
      \<lparr>repType = REPORT_OVERRUN, source = Some this, timeStampIn = now,
       timeStampOut = 0, info = of_nat (EventType_value k)\<rparr>"
    using Cons.prems by (simp add: queueReport_overrun Let_def)
  have e: "snd (snd (exec (resubmissions this (x # subs)) s)) =
      snd (snd (exec (resubmissions this subs) ?s1))"
    unfolding resubmissions_def x by (simp split: prod.splits)
  show ?case
  proof (cases "subs = []")
    case True
    then show ?thesis unfolding e by (simp add: resubmissions_def x o1)
  next
    case False
    then show ?thesis unfolding e using Cons.IH [OF s1 False] by simp
  qed
qed

lemma queueReport_overRunRep_irrelevant:
  assumes "timeStampIn (lastRep (heap s this)) \<noteq> 0"
  shows "queueReport this k i now (assign (OverRunRepOf this) (\<lambda>_. r) s) =
         queueReport this k i now s"
  using assms by (simp add: queueReport_overrun Let_def)

text \<open>The remaining example states, evaluated.\<close>

lemma full10_facts:
  "reportQueue full10 = LastRepOf 10 # replicate 15 (OverRunRepOf 10)"
  "lastRep (heap full10 10) =
     \<lparr>repType = LOCO_STOP, source = Some 10, timeStampIn = 100, timeStampOut = 0, info = 7\<rparr>"
  using exec_resubmissions [where s = one_pending and this = 10
      and subs = "replicate 15 (VL53_ERR, 9, 200)"]
  by (simp_all add: full10_def)

lemma two_reps_eq:
  "two_reps =
     \<lparr>heap = zero_heap
        (10 := \<lparr>nextReporter = Some 20, id_Reporter = 1,
                lastRep = zero_report, overRunRep = zero_report\<rparr>,
         20 := \<lparr>nextReporter = None, id_Reporter = 2,
                lastRep = zero_report, overRunRep = zero_report\<rparr>),
      lastInstantiated = Some 20, firstReporter = Some 10, lastId = 2,
      reportQueue = [], overRunCount = 0, queueFullCount = 0\<rparr>"
  by (simp add: two_reps_def Reporter_new_def chain_in_def init_state_def link_def
      zero_heap_def zero_report_def fun_eq_iff)

lemma two_pending_facts:
  "reportQueue two_pending = [LastRepOf 20]"
  "lastRep (heap two_pending 20) =
     \<lparr>repType = VL53_RANGE_CLOSE, source = Some 20, timeStampIn = 100, timeStampOut = 0,
      info = 3\<rparr>"
  "lastRep (heap two_pending 10) = zero_report"
  "queueFullCount two_pending = 0"
  by (simp_all add: two_pending_def two_reps_eq queueReport_fresh zero_report_def)

lemma full20_facts:
  "reportQueue full20 = LastRepOf 20 # replicate 15 (OverRunRepOf 20)"
  "lastRep (heap full20 10) = zero_report"
  using exec_resubmissions [where s = two_pending and this = 20
      and subs = "replicate 15 (VL53_ERR, 9, 200)"]
    heap_exec_resubmissions_other [where a = 10 and this = 20 and s = two_pending
      and subs = "replicate 15 (VL53_ERR, 9, 200)"]
  by (simp_all add: full20_def two_pending_facts)

lemma reuse_state_facts:
  "reportQueue reuse_state = [OverRunRepOf 10, LastRepOf 10]"
  "lastRep (heap reuse_state 10) =
     \<lparr>repType = ROTQ_ROT, source = Some 10, timeStampIn = 400, timeStampOut = 0, info = 1\<rparr>"
  "overRunRep (heap reuse_state 10) =
     \<lparr>repType = REPORT_OVERRUN, source = Some 10, timeStampIn = 200, timeStampOut = 0, info = 5\<rparr>"
  "overRunCount reuse_state = 1"
  by (simp_all add: reuse_state_def interleaved_def one_pending_eq queueReport_overrun
      queueReport_fresh tryGetReport_for_Cons Let_def)

subsection \<open>Retrieval and the waiting time\<close>

lemma await_report_zero: "await_report 0 env s = (0, s)"
  by (simp add: await_report_def split: option.splits)

lemma reportQueue_queueReport_Nil:
  "reportQueue s = [] \<Longrightarrow> reportQueue (queueReport this k i now s) = [queueReport_rp this s]"
  by (simp add: reportQueue_queueReport try_put_16)

lemma await_report_cases:
  "await_report waitTime env s =
     (if reportQueue s \<noteq> [] then (0, s)
      else if arrives_within waitTime env
        then (case env of Some (d, this, k, i, t) \<Rightarrow> (d, queueReport this k i t s) | None \<Rightarrow> (0, s))
        else (waitTime, s))"
  by (auto simp: await_report_def arrives_within_def split: option.splits)

lemma await_report_elapsed: "fst (await_report waitTime env s) \<le> waitTime"
  by (auto simp: await_report_def split: option.splits)

lemma await_report_queue:
  "(reportQueue (snd (await_report waitTime env s)) \<noteq> []) =
     (reportQueue s \<noteq> [] \<or> arrives_within waitTime env)"
  by (auto simp: await_report_def arrives_within_def reportQueue_queueReport_Nil
      split: option.splits)

lemma fst_tryGetReport_for: "fst (tryGetReport_for rd w now s) = (reportQueue s \<noteq> [])"
  by (cases "reportQueue s") (simp_all add: tryGetReport_for_Nil tryGetReport_for_Cons)

text \<open>
  C8. \<open>tryGetReport(rdp)\<close> is \<open>tryGetReport(rdp, 0)\<close>. With the duration 0 the call does
  not block, whatever submission is on its way: it returns after time 0, and on an empty
  queue it returns false and changes nothing. With any duration the call blocks no longer
  than the duration, and it returns true exactly when the queue holds a reference at the
  call or a submission takes effect before the waiting time is over. When it returns
  false it has blocked for the whole duration and changed nothing. When the queue holds a
  reference at the call it returns at once with the record the first reference points to;
  when it is woken by a submission it returns at the time of the submission with the
  record of that submission.
\<close>

theorem tryGetReport_timeout:
  "tryGetReport rd now s = tryGetReport_for rd 0 now s
   \<and> tryGetReport_blocking rd now env s = (0, tryGetReport rd now s)
   \<and> (reportQueue s = [] \<longrightarrow> tryGetReport_blocking rd now env s = (0, False, rd, s))
   \<and> fst (tryGetReport_for_blocking rd waitTime now env s) \<le> waitTime
   \<and> fst (snd (tryGetReport_for_blocking rd waitTime now env s)) =
       (reportQueue s \<noteq> [] \<or> arrives_within waitTime env)
   \<and> (\<not> fst (snd (tryGetReport_for_blocking rd waitTime now env s)) \<longrightarrow>
        tryGetReport_for_blocking rd waitTime now env s = (waitTime, False, rd, s))
   \<and> (reportQueue s \<noteq> [] \<longrightarrow>
        tryGetReport_for_blocking rd waitTime now env s = (0, tryGetReport_for rd waitTime now s)
        \<and> fst (snd (tryGetReport_for rd waitTime now s)) =
          \<lparr>repType = repType (deref s (hd (reportQueue s))),
           source = source (deref s (hd (reportQueue s))),
           timeStampIn = timeStampIn (deref s (hd (reportQueue s))),
           timeStampOut = now,
           info = info (deref s (hd (reportQueue s)))\<rparr>)
   \<and> (reportQueue s = [] \<and> env = Some (d, this, k, i, t) \<and> d < waitTime \<longrightarrow>
        tryGetReport_for_blocking rd waitTime now env s =
          (d, tryGetReport_for rd waitTime now (queueReport this k i t s))
        \<and> source (fst (snd (snd (tryGetReport_for_blocking rd waitTime now env s)))) = Some this
        \<and> timeStampIn (fst (snd (snd (tryGetReport_for_blocking rd waitTime now env s)))) = t
        \<and> timeStampOut (fst (snd (snd (tryGetReport_for_blocking rd waitTime now env s)))) = now)"
proof -
  have a: "tryGetReport rd now s = tryGetReport_for rd 0 now s"
    by (simp add: tryGetReport_def)
  have b: "tryGetReport_blocking rd now env s = (0, tryGetReport rd now s)"
    by (simp add: tryGetReport_blocking_def tryGetReport_for_blocking_def await_report_zero
        tryGetReport_def)
  have c: "reportQueue s = [] \<longrightarrow> tryGetReport_blocking rd now env s = (0, False, rd, s)"
    by (simp add: b tryGetReport_def tryGetReport_for_Nil)
  have d: "fst (tryGetReport_for_blocking rd waitTime now env s) \<le> waitTime"
    using await_report_elapsed [of waitTime env s]
    by (cases "await_report waitTime env s") (simp add: tryGetReport_for_blocking_def)
  have e: "fst (snd (tryGetReport_for_blocking rd waitTime now env s)) =
       (reportQueue s \<noteq> [] \<or> arrives_within waitTime env)"
    using await_report_queue [of waitTime env s]
    by (cases "await_report waitTime env s")
      (simp add: tryGetReport_for_blocking_def fst_tryGetReport_for)
  have f: "\<not> fst (snd (tryGetReport_for_blocking rd waitTime now env s)) \<longrightarrow>
        tryGetReport_for_blocking rd waitTime now env s = (waitTime, False, rd, s)"
    unfolding e
    by (simp add: tryGetReport_for_blocking_def await_report_cases tryGetReport_for_Nil)
  have g: "reportQueue s \<noteq> [] \<longrightarrow>
        tryGetReport_for_blocking rd waitTime now env s = (0, tryGetReport_for rd waitTime now s)
        \<and> fst (snd (tryGetReport_for rd waitTime now s)) =
          \<lparr>repType = repType (deref s (hd (reportQueue s))),
           source = source (deref s (hd (reportQueue s))),
           timeStampIn = timeStampIn (deref s (hd (reportQueue s))),
           timeStampOut = now,
           info = info (deref s (hd (reportQueue s)))\<rparr>"
    by (cases "reportQueue s")
      (simp_all add: tryGetReport_for_blocking_def await_report_def tryGetReport_for_Cons)
  have h: "reportQueue s = [] \<and> env = Some (d, this, k, i, t) \<and> d < waitTime \<longrightarrow>
        tryGetReport_for_blocking rd waitTime now env s =
          (d, tryGetReport_for rd waitTime now (queueReport this k i t s))
        \<and> source (fst (snd (snd (tryGetReport_for_blocking rd waitTime now env s)))) = Some this
        \<and> timeStampIn (fst (snd (snd (tryGetReport_for_blocking rd waitTime now env s)))) = t
        \<and> timeStampOut (fst (snd (snd (tryGetReport_for_blocking rd waitTime now env s)))) = now"
  proof (intro impI, elim conjE)
    assume q: "reportQueue s = []" and v: "env = Some (d, this, k, i, t)" and w: "d < waitTime"
    have r: "tryGetReport_for_blocking rd waitTime now env s =
          (d, tryGetReport_for rd waitTime now (queueReport this k i t s))"
      using q v w by (simp add: tryGetReport_for_blocking_def await_report_def)
    have n: "reportQueue (queueReport this k i t s) = [queueReport_rp this s]"
      using q by (rule reportQueue_queueReport_Nil)
    have "source (deref (queueReport this k i t s) (queueReport_rp this s)) = Some this
        \<and> timeStampIn (deref (queueReport this k i t s) (queueReport_rp this s)) = t"
      by (cases "timeStampIn (lastRep (heap s this)) = 0")
        (simp_all add: queueReport_fresh queueReport_overrun queueReport_rp_fresh
          queueReport_rp_overrun Let_def)
    then show "tryGetReport_for_blocking rd waitTime now env s =
          (d, tryGetReport_for rd waitTime now (queueReport this k i t s))
        \<and> source (fst (snd (snd (tryGetReport_for_blocking rd waitTime now env s)))) = Some this
        \<and> timeStampIn (fst (snd (snd (tryGetReport_for_blocking rd waitTime now env s)))) = t
        \<and> timeStampOut (fst (snd (snd (tryGetReport_for_blocking rd waitTime now env s)))) = now"
      by (simp add: r tryGetReport_for_Cons [OF n])
  qed
  from a b c d e f g h show ?thesis by blast
qed

theorem tryGetReport_timeout_witness:
  "reportQueue one_rep = []
   \<and> tryGetReport_blocking zero_report 250 (Some (5, 10, LOCO_STOP, 7, 100)) one_rep =
       (0, False, zero_report, one_rep)
   \<and> tryGetReport_for_blocking zero_report 3 250 (Some (5, 10, LOCO_STOP, 7, 100)) one_rep =
       (3, False, zero_report, one_rep)
   \<and> fst (tryGetReport_for_blocking zero_report 8 250 (Some (5, 10, LOCO_STOP, 7, 100)) one_rep) = 5
   \<and> fst (snd (tryGetReport_for_blocking zero_report 8 250 (Some (5, 10, LOCO_STOP, 7, 100)) one_rep))
   \<and> fst (snd (snd (tryGetReport_for_blocking zero_report 8 250
         (Some (5, 10, LOCO_STOP, 7, 100)) one_rep))) =
       \<lparr>repType = LOCO_STOP, source = Some 10, timeStampIn = 100, timeStampOut = 250, info = 7\<rparr>
   \<and> reportQueue one_pending \<noteq> []
   \<and> tryGetReport_for_blocking zero_report 8 250 None one_pending =
       (0, tryGetReport_for zero_report 8 250 one_pending)
   \<and> fst (snd (tryGetReport_for zero_report 8 250 one_pending)) =
       \<lparr>repType = LOCO_STOP, source = Some 10, timeStampIn = 100, timeStampOut = 250, info = 7\<rparr>"
proof -
  let ?env = "Some (5, 10, LOCO_STOP, 7, 100) :: arrival option"
  note z = tryGetReport_timeout [where rd = zero_report and now = 250 and s = one_rep
      and env = ?env and waitTime = 3 and d = 5 and this = 10 and k = LOCO_STOP and i = 7
      and t = 100]
  note l = tryGetReport_timeout [where rd = zero_report and now = 250 and s = one_rep
      and env = ?env and waitTime = 8 and d = 5 and this = 10 and k = LOCO_STOP and i = 7
      and t = 100]
  note p = tryGetReport_timeout [where rd = zero_report and now = 250 and s = one_pending
      and env = None and waitTime = 8 and d = 5 and this = 10 and k = LOCO_STOP and i = 7
      and t = 100]
  have e: "reportQueue one_rep = []" "reportQueue one_pending \<noteq> []" by simp_all
  have w: "\<not> arrives_within 3 ?env" "arrives_within 8 ?env" "(5::32 word) < 8"
    by (simp_all add: arrives_within_def)
  have o: "queueReport 10 LOCO_STOP 7 100 one_rep = one_pending"
    by (simp add: one_pending_def)
  from z w have z1: "tryGetReport_blocking zero_report 250 ?env one_rep =
       (0, False, zero_report, one_rep)"
    "tryGetReport_for_blocking zero_report 3 250 ?env one_rep = (3, False, zero_report, one_rep)"
    using e by blast+
  from l w o have l1: "tryGetReport_for_blocking zero_report 8 250 ?env one_rep =
      (5, tryGetReport_for zero_report 8 250 one_pending)"
    using e by auto
  from p have p1: "tryGetReport_for_blocking zero_report 8 250 None one_pending =
       (0, tryGetReport_for zero_report 8 250 one_pending)"
    "fst (snd (tryGetReport_for zero_report 8 250 one_pending)) =
       \<lparr>repType = LOCO_STOP, source = Some 10, timeStampIn = 100, timeStampOut = 250, info = 7\<rparr>"
    using e by simp_all
  from p have p2: "fst (tryGetReport_for zero_report 8 250 one_pending)"
    by (simp add: fst_tryGetReport_for)
  show ?thesis using z1 l1 p1 p2 by simp
qed

subsection \<open>A submission while the previous report is unacknowledged\<close>

text \<open>
  C1, as amended. When the current record of a reporter has a nonzero \<open>timeStampIn\<close>, a
  call of \<open>queueReport\<close> writes the overrun record: its kind is \<open>REPORT_OVERRUN\<close>, its
  \<open>info\<close> is the numeric value of the kind passed to this call (the kind of the report
  that is being replaced, not the kind of the report still pending in the current
  record), its source is the reporter and its \<open>timeStampIn\<close> the clock reading. The
  current record is left as it is, the overrun counter is incremented by 1 (modulo
  \<open>2^16\<close>), and a reference to the overrun record is appended to the queue when the queue
  holds fewer than 16 references; otherwise the queue is left as it is.
\<close>

theorem queueReport_overrun_report:
  assumes "timeStampIn (lastRep (heap s this)) \<noteq> 0"
  shows "overRunRep (heap (queueReport this k i now s) this) =
           \<lparr>repType = REPORT_OVERRUN, source = Some this, timeStampIn = now,
            timeStampOut = 0, info = of_nat (EventType_value k)\<rparr>
         \<and> lastRep (heap (queueReport this k i now s) this) = lastRep (heap s this)
         \<and> overRunCount (queueReport this k i now s) = overRunCount s + 1
         \<and> reportQueue (queueReport this k i now s) =
             (if length (reportQueue s) < 16 then reportQueue s @ [OverRunRepOf this]
              else reportQueue s)"
  using assms by (simp add: queueReport_overrun Let_def)

theorem queueReport_overrun_report_witness:
  "timeStampIn (lastRep (heap one_pending 10)) \<noteq> 0
   \<and> overRunRep (heap (queueReport 10 VL53_ERR 9 200 one_pending) 10) =
       \<lparr>repType = REPORT_OVERRUN, source = Some 10, timeStampIn = 200, timeStampOut = 0,
        info = 5\<rparr>
   \<and> overRunCount (queueReport 10 VL53_ERR 9 200 one_pending) = 1
   \<and> reportQueue (queueReport 10 VL53_ERR 9 200 one_pending) = [LastRepOf 10, OverRunRepOf 10]"
  using queueReport_overrun_report [where s = one_pending and this = 10 and k = VL53_ERR
      and i = 9 and now = 200]
  by (simp add: one_pending_eq)

text \<open>
  The claim as first stated fails: after \<open>LOCO_STOP\<close> is pending, a report of \<open>VL53_ERR\<close>
  produces an overrun record whose \<open>info\<close> is the value of \<open>VL53_ERR\<close>, not that of the
  original \<open>LOCO_STOP\<close>.
\<close>

theorem overrun_payload_counterexample:
  "timeStampIn (lastRep (heap one_pending 10)) \<noteq> 0
   \<and> repType (lastRep (heap one_pending 10)) = LOCO_STOP
   \<and> reportQueue (queueReport 10 VL53_ERR 9 200 one_pending) =
       reportQueue one_pending @ [OverRunRepOf 10]
   \<and> info (deref (queueReport 10 VL53_ERR 9 200 one_pending) (OverRunRepOf 10)) =
       of_nat (EventType_value VL53_ERR)
   \<and> info (deref (queueReport 10 VL53_ERR 9 200 one_pending) (OverRunRepOf 10)) \<noteq>
       of_nat (EventType_value LOCO_STOP)"
  by (simp add: queueReport_overrun Let_def)

subsection \<open>A submission into a full queue\<close>

text \<open>
  C4, as amended. When the queue holds 16 references, a call of \<open>queueReport\<close> leaves
  the queue as it is (still 16 references), increments the queue-full counter by 1
  (modulo \<open>2^16\<close>), and leaves the record it wrote stamped with the clock reading; when
  that reading is not 0 the current record of the reporter has a nonzero
  \<open>timeStampIn\<close> after the call.
\<close>

theorem queueReport_full:
  assumes "length (reportQueue s) = 16"
  shows "reportQueue (queueReport this k i now s) = reportQueue s
         \<and> length (reportQueue (queueReport this k i now s)) = 16
         \<and> queueFullCount (queueReport this k i now s) = queueFullCount s + 1
         \<and> timeStampIn (deref (queueReport this k i now s) (queueReport_rp this s)) = now
         \<and> (now \<noteq> 0 \<longrightarrow>
              timeStampIn (lastRep (heap (queueReport this k i now s) this)) \<noteq> 0)"
  using assms
  by (cases "timeStampIn (lastRep (heap s this)) = 0")
    (simp_all add: queueReport_fresh queueReport_overrun queueReport_rp_fresh
      queueReport_rp_overrun Let_def)

theorem queueReport_full_witness:
  "length (reportQueue full20) = 16 \<and> (300::32 word) \<noteq> 0
   \<and> reportQueue (queueReport 10 LOCO_STOP 7 300 full20) = reportQueue full20
   \<and> length (reportQueue (queueReport 10 LOCO_STOP 7 300 full20)) = 16
   \<and> queueFullCount (queueReport 10 LOCO_STOP 7 300 full20) = queueFullCount full20 + 1
   \<and> timeStampIn (lastRep (heap (queueReport 10 LOCO_STOP 7 300 full20) 10)) \<noteq> 0"
  using queueReport_full [where s = full20 and now = 300 and this = 10 and k = LOCO_STOP
      and i = 7]
  by (simp add: full20_facts)

text \<open>
  Without the condition on the clock the claim fails: a first report made at the instant
  \<open>micros()\<close> reads 0 is dropped by the full queue and leaves \<open>timeStampIn = 0\<close>.
\<close>

theorem queueReport_full_counterexample:
  "length (reportQueue full20) = 16
   \<and> reportQueue (queueReport 10 LOCO_STOP 7 0 full20) = reportQueue full20
   \<and> queueReport_rp 10 full20 = LastRepOf 10
   \<and> lastRep (heap (queueReport 10 LOCO_STOP 7 0 full20) 10) =
       \<lparr>repType = LOCO_STOP, source = Some 10, timeStampIn = 0, timeStampOut = 0, info = 7\<rparr>
   \<and> \<not> timeStampIn (lastRep (heap (queueReport 10 LOCO_STOP 7 0 full20) 10)) \<noteq> 0"
  by (simp add: full20_facts queueReport_fresh queueReport_rp_fresh zero_report_def Let_def)

subsection \<open>Repeated overruns\<close>

text \<open>
  C10, as amended. For a reporter whose current record is unacknowledged the content of
  the overrun record has no influence on \<open>queueReport\<close>. Every further submission of the
  reporter before any retrieval uses the one overrun record: the current record stays as
  it is, the overrun record holds the data of the latest submission, the overrun counter
  grows by the number of submissions (modulo \<open>2^16\<close>), and each submission appends one
  more reference to the overrun record, whatever the queue already holds, as long as the
  queue holds fewer than 16 references; the submissions after that append nothing.
\<close>

theorem overrun_slot_reuse:
  assumes "timeStampIn (lastRep (heap s this)) \<noteq> 0"
  shows "queueReport this k i now (assign (OverRunRepOf this) (\<lambda>_. r) s) =
           queueReport this k i now s
         \<and> fst (exec (resubmissions this subs) s) =
             replicate (min (length subs) (16 - length (reportQueue s))) (OverRunRepOf this)
         \<and> reportQueue (snd (snd (exec (resubmissions this subs) s))) =
             reportQueue s @ fst (exec (resubmissions this subs) s)
         \<and> lastRep (heap (snd (snd (exec (resubmissions this subs) s))) this) =
             lastRep (heap s this)
         \<and> overRunCount (snd (snd (exec (resubmissions this subs) s))) =
             overRunCount s + of_nat (length subs)
         \<and> (subs \<noteq> [] \<longrightarrow>
              overRunRep (heap (snd (snd (exec (resubmissions this subs) s))) this) =
                (case last subs of (k', i', t) \<Rightarrow>
                   \<lparr>repType = REPORT_OVERRUN, source = Some this, timeStampIn = t,
                    timeStampOut = 0, info = of_nat (EventType_value k')\<rparr>))"
  using exec_resubmissions [OF assms, of subs] exec_resubmissions_overRunRep [OF assms, of subs]
    queueReport_overRunRep_irrelevant [OF assms, of k i now r]
  by simp

theorem overrun_slot_reuse_witness:
  "timeStampIn (lastRep (heap one_pending 10)) \<noteq> 0
   \<and> fst (exec (resubmissions 10 [(VL53_ERR, 9, 200), (ROTQ_ROT, 1, 300)]) one_pending) =
       [OverRunRepOf 10, OverRunRepOf 10]
   \<and> reportQueue (snd (snd (exec (resubmissions 10 [(VL53_ERR, 9, 200), (ROTQ_ROT, 1, 300)])
         one_pending))) = [LastRepOf 10, OverRunRepOf 10, OverRunRepOf 10]
   \<and> overRunRep (heap (snd (snd (exec (resubmissions 10 [(VL53_ERR, 9, 200), (ROTQ_ROT, 1, 300)])
         one_pending))) 10) =
       \<lparr>repType = REPORT_OVERRUN, source = Some 10, timeStampIn = 300, timeStampOut = 0,
        info = 26\<rparr>"
  using overrun_slot_reuse [where s = one_pending and this = 10
      and subs = "[(VL53_ERR, 9, 200), (ROTQ_ROT, 1, 300)]"]
  by simp

text \<open>
  With sixteen references in the queue a further submission overwrites the overrun
  record and enqueues no reference.
\<close>

theorem overrun_slot_reuse_counterexample:
  "timeStampIn (lastRep (heap full10 10)) \<noteq> 0
   \<and> length (reportQueue full10) = 16
   \<and> overRunRep (heap (queueReport 10 SET_AUTO 0 900 full10) 10) =
       \<lparr>repType = REPORT_OVERRUN, source = Some 10, timeStampIn = 900, timeStampOut = 0,
        info = 28\<rparr>
   \<and> reportQueue (queueReport 10 SET_AUTO 0 900 full10) = reportQueue full10"
  by (simp add: full10_facts queueReport_overrun Let_def)

subsection \<open>The two counters\<close>

text \<open>
  C7, as amended. Both counters are 16-bit values. \<open>queueReport\<close> adds 1 (modulo \<open>2^16\<close>)
  to the overrun counter exactly when the current record of the reporter is
  unacknowledged, and 1 to the queue-full counter exactly when the queue has no room;
  \<open>tryGetReport\<close> and the two constructors leave both counters as they are. A counter
  that is not 65535 does not decrease.
\<close>

theorem counters_step:
  "overRunCount (queueReport this k i now s) =
     (if timeStampIn (lastRep (heap s this)) \<noteq> 0 then overRunCount s + 1 else overRunCount s)
   \<and> queueFullCount (queueReport this k i now s) =
     (if length (reportQueue s) < 16 then queueFullCount s else queueFullCount s + 1)
   \<and> overRunCount (snd (snd (tryGetReport_for rd waitTime now s))) = overRunCount s
   \<and> queueFullCount (snd (snd (tryGetReport_for rd waitTime now s))) = queueFullCount s
   \<and> (\<forall>s'. Reporter_new this type s = Some s' \<longrightarrow>
         overRunCount s' = overRunCount s \<and> queueFullCount s' = queueFullCount s)
   \<and> (\<forall>s'. Reporter_new_id this type ident s = Some s' \<longrightarrow>
         overRunCount s' = overRunCount s \<and> queueFullCount s' = queueFullCount s)
   \<and> (overRunCount s \<noteq> 65535 \<longrightarrow> overRunCount s \<le> overRunCount (queueReport this k i now s))
   \<and> (queueFullCount s \<noteq> 65535 \<longrightarrow>
         queueFullCount s \<le> queueFullCount (queueReport this k i now s))"
  using counters_tryGetReport_for [of rd waitTime now s]
    counters_Reporter_new [of this type s] counters_Reporter_new_id [of this type ident s]
  by (simp add: overRunCount_queueReport queueFullCount_queueReport word16_inc_le)

theorem counters_step_witness:
  "Reporter_new 10 SERVO_REP (init_state zero_heap) = Some one_rep
   \<and> overRunCount one_rep = overRunCount (init_state zero_heap)
   \<and> queueFullCount one_rep = queueFullCount (init_state zero_heap)
   \<and> Reporter_new_id 20 VL53_REP 200 one_rep = Some two_reps_id
   \<and> overRunCount two_reps_id = overRunCount one_rep
   \<and> queueFullCount two_reps_id = queueFullCount one_rep
   \<and> overRunCount one_pending \<noteq> 65535
   \<and> overRunCount one_pending \<le> overRunCount (queueReport 10 VL53_ERR 9 200 one_pending)
   \<and> overRunCount (queueReport 10 VL53_ERR 9 200 one_pending) = overRunCount one_pending + 1
   \<and> queueFullCount one_pending \<noteq> 65535
   \<and> queueFullCount one_pending \<le> queueFullCount (queueReport 10 VL53_ERR 9 200 one_pending)"
proof -
  have n: "Reporter_new 10 SERVO_REP (init_state zero_heap) = Some one_rep"
    by (simp add: one_rep_def Reporter_new_def chain_in_def init_state_def Let_def)
  have m: "Reporter_new_id 20 VL53_REP 200 one_rep = Some two_reps_id"
    by (simp add: two_reps_id_def one_rep_eq Reporter_new_id_def chain_in_def Let_def)
  have c: "overRunCount one_pending = 0" "queueFullCount one_pending = 0"
    by (simp_all add: one_pending_eq)
  note t = counters_step [where s = "init_state zero_heap" and this = 10 and type = SERVO_REP]
    counters_step [where s = one_pending and this = 10 and k = VL53_ERR and i = 9 and now = 200]
    counters_step [where s = one_rep and this = 20 and type = VL53_REP and ident = 200]
  from t(1) n have "overRunCount one_rep = overRunCount (init_state zero_heap)
      \<and> queueFullCount one_rep = queueFullCount (init_state zero_heap)"
    by blast
  moreover from t(3) m have "overRunCount two_reps_id = overRunCount one_rep
      \<and> queueFullCount two_reps_id = queueFullCount one_rep"
    by blast
  ultimately show ?thesis using t(2) n m c by simp
qed

text \<open>At 65535 the increment wraps to 0: the counter decreases.\<close>

theorem counter_wrap_counterexample:
  "timeStampIn (lastRep (heap (one_pending\<lparr>overRunCount := 65535\<rparr>) 10)) \<noteq> 0
   \<and> overRunCount (queueReport 10 VL53_ERR 9 200 (one_pending\<lparr>overRunCount := 65535\<rparr>)) = 0
   \<and> overRunCount (queueReport 10 VL53_ERR 9 200 (one_pending\<lparr>overRunCount := 65535\<rparr>))
       < overRunCount (one_pending\<lparr>overRunCount := 65535\<rparr>)"
  by (simp add: overRunCount_queueReport)

subsection \<open>A retrieval that succeeds\<close>

text \<open>
  C2, as amended. When the queue is not empty, \<open>tryGetReport\<close> returns true, the
  caller's structure receives \<open>repType\<close>, \<open>source\<close>, \<open>info\<close> and \<open>timeStampIn\<close> of the
  record the first reference points to and the clock reading as \<open>timeStampOut\<close>; in the
  record itself \<open>timeStampOut\<close> is set to the same reading and \<open>timeStampIn\<close> to 0; the
  reference is removed and no other record changes. When the reference is to the current
  record of a reporter, the next submission of that reporter is a fresh one: it uses the
  current record and leaves the overrun counter as it is.
\<close>

theorem tryGetReport_copies_and_releases:
  assumes "reportQueue s = rsp # q"
  shows "fst (tryGetReport_for rd waitTime now s)
    \<and> fst (snd (tryGetReport_for rd waitTime now s)) =
        \<lparr>repType = repType (deref s rsp), source = source (deref s rsp),
         timeStampIn = timeStampIn (deref s rsp), timeStampOut = now,
         info = info (deref s rsp)\<rparr>
    \<and> deref (snd (snd (tryGetReport_for rd waitTime now s))) rsp =
        (deref s rsp)\<lparr>timeStampIn := 0, timeStampOut := now\<rparr>
    \<and> reportQueue (snd (snd (tryGetReport_for rd waitTime now s))) = q
    \<and> (\<forall>r. r \<noteq> rsp \<longrightarrow> deref (snd (snd (tryGetReport_for rd waitTime now s))) r = deref s r)
    \<and> (rsp = LastRepOf p \<longrightarrow>
          queueReport_rp p (snd (snd (tryGetReport_for rd waitTime now s))) = LastRepOf p
          \<and> overRunCount (queueReport p k i t (snd (snd (tryGetReport_for rd waitTime now s)))) =
              overRunCount s
          \<and> lastRep (heap (queueReport p k i t (snd (snd (tryGetReport_for rd waitTime now s)))) p) =
              \<lparr>repType = k, source = Some p, timeStampIn = t, timeStampOut = 0, info = i\<rparr>)"
  using assms
  by (simp add: tryGetReport_for_Cons deref_assign queueReport_rp_fresh queueReport_fresh Let_def)

theorem tryGetReport_copies_and_releases_witness:
  "reportQueue one_pending = LastRepOf 10 # []
   \<and> fst (tryGetReport_for zero_report 0 250 one_pending)
   \<and> fst (snd (tryGetReport_for zero_report 0 250 one_pending)) =
        \<lparr>repType = LOCO_STOP, source = Some 10, timeStampIn = 100, timeStampOut = 250,
         info = 7\<rparr>
   \<and> lastRep (heap (snd (snd (tryGetReport_for zero_report 0 250 one_pending))) 10) =
        \<lparr>repType = LOCO_STOP, source = Some 10, timeStampIn = 0, timeStampOut = 250,
         info = 7\<rparr>
   \<and> overRunRep (heap (snd (snd (tryGetReport_for zero_report 0 250 one_pending))) 10) =
        overRunRep (heap one_pending 10)
   \<and> lastRep (heap (queueReport 10 ROTQ_ROT 1 400
           (snd (snd (tryGetReport_for zero_report 0 250 one_pending)))) 10) =
        \<lparr>repType = ROTQ_ROT, source = Some 10, timeStampIn = 400, timeStampOut = 0, info = 1\<rparr>"
proof -
  note t = tryGetReport_copies_and_releases [where s = one_pending and rsp = "LastRepOf 10"
      and q = "[]" and rd = zero_report and waitTime = 0 and now = 250 and p = 10
      and k = ROTQ_ROT and i = 1 and t = 400]
  from t have "\<forall>r. r \<noteq> LastRepOf 10 \<longrightarrow>
      deref (snd (snd (tryGetReport_for zero_report 0 250 one_pending))) r = deref one_pending r"
    by simp
  then have "deref (snd (snd (tryGetReport_for zero_report 0 250 one_pending))) (OverRunRepOf 10) =
      deref one_pending (OverRunRepOf 10)"
    by blast
  with t show ?thesis by simp
qed

text \<open>
  The retrieval of an overrun record does not release the current record: here the
  consumer receives the overrun record of reporter 10 while the third report of the
  reporter is still pending, and the next submission of the reporter is an overrun again.
\<close>

theorem retrieval_not_fresh_counterexample:
  "fst (tryGetReport_for zero_report 0 500 reuse_state)
   \<and> source (fst (snd (tryGetReport_for zero_report 0 500 reuse_state))) = Some 10
   \<and> repType (fst (snd (tryGetReport_for zero_report 0 500 reuse_state))) = REPORT_OVERRUN
   \<and> timeStampIn (overRunRep (heap (snd (snd (tryGetReport_for zero_report 0 500 reuse_state))) 10)) = 0
   \<and> queueReport_rp 10 (snd (snd (tryGetReport_for zero_report 0 500 reuse_state))) = OverRunRepOf 10
   \<and> overRunCount (queueReport 10 SET_AUTO 0 600
         (snd (snd (tryGetReport_for zero_report 0 500 reuse_state)))) =
       overRunCount (snd (snd (tryGetReport_for zero_report 0 500 reuse_state))) + 1"
  by (simp add: reuse_state_facts tryGetReport_for_Cons queueReport_rp_overrun
      overRunCount_queueReport)

subsection \<open>The chain of reporters\<close>

lemma chain_traverse:
  "chain (\<lambda>a. nextReporter (heap s a)) p xs \<Longrightarrow> length xs \<le> n \<Longrightarrow> traverse n s p = Some xs"
proof (induction xs arbitrary: n p)
  case Nil
  then show ?case by simp
next
  case (Cons a xs)
  then obtain m where n: "n = Suc m" by (cases n) auto
  from Cons.prems have "traverse m s (nextReporter (heap s a)) = Some xs"
    by (intro Cons.IH) (auto simp: n)
  with Cons.prems show ?case by (simp add: n getNextReporter_def)
qed

lemma chain_snoc:
  assumes "chain nxt p xs" and "distinct xs" and "a \<notin> set xs" and "xs \<noteq> []"
  shows "chain (\<lambda>x. if x = a then None else if x = last xs then Some a else nxt x) p (xs @ [a])"
  using assms
proof (induction xs arbitrary: p)
  case Nil
  then show ?case by simp
next
  case (Cons x xs)
  show ?case
  proof (cases "xs = []")
    case True
    with Cons.prems show ?thesis by simp
  next
    case False
    from Cons.prems False have ne: "x \<noteq> a" "x \<noteq> last xs"
      by auto
    from Cons.prems False
    have ih: "chain (\<lambda>x. if x = a then None else if x = last xs then Some a else nxt x)
        (nxt x) (xs @ [a])"
      by (intro Cons.IH) auto
    have l: "last (x # xs) = last xs" using False by simp
    show ?thesis unfolding l using Cons.prems ne ih by simp
  qed
qed

lemma chain_in_Some:
  assumes "(firstReporter s = None) = (lastInstantiated s = None)"
  shows "chain_in this s =
     Some (if firstReporter s = None then s\<lparr>firstReporter := Some this\<rparr>
           else link (the (lastInstantiated s)) (Some this) s)"
  using assms by (auto simp: chain_in_def split: option.splits)

lemma Reporter_new_effect:
  assumes "(firstReporter s = None) = (lastInstantiated s = None)"
  shows "\<exists>s'. Reporter_new this type s = Some s'
     \<and> lastInstantiated s' = Some this
     \<and> firstReporter s' = (if firstReporter s = None then Some this else firstReporter s)
     \<and> (\<forall>a. nextReporter (heap s' a) =
           (if a = this then None
            else if lastInstantiated s = Some a then Some this
            else nextReporter (heap s a)))
     \<and> id_Reporter (heap s' this) = lastId s + 1
     \<and> lastId s' = lastId s + 1
     \<and> timeStampIn (lastRep (heap s' this)) = 0
     \<and> timeStampOut (lastRep (heap s' this)) = 0
     \<and> overRunRep (heap s' this) = overRunRep (heap s this)
     \<and> (\<forall>a. a \<noteq> this \<longrightarrow> lastRep (heap s' a) = lastRep (heap s a)
             \<and> overRunRep (heap s' a) = overRunRep (heap s a)
             \<and> id_Reporter (heap s' a) = id_Reporter (heap s a))
     \<and> reportQueue s' = reportQueue s"
  using assms
  by (cases "lastInstantiated s")
    (auto simp: Reporter_new_def chain_in_def link_def Let_def split: option.splits)

lemma Reporter_new_id_effect:
  assumes "(firstReporter s = None) = (lastInstantiated s = None)"
  shows "\<exists>s'. Reporter_new_id this type ident s = Some s'
     \<and> lastInstantiated s' = Some this
     \<and> firstReporter s' = (if firstReporter s = None then Some this else firstReporter s)
     \<and> (\<forall>a. nextReporter (heap s' a) =
           (if a = this then None
            else if lastInstantiated s = Some a then Some this
            else nextReporter (heap s a)))
     \<and> id_Reporter (heap s' this) = ident
     \<and> lastId s' = lastId s
     \<and> lastRep (heap s' this) = lastRep (heap s this)
     \<and> overRunRep (heap s' this) = overRunRep (heap s this)
     \<and> (\<forall>a. a \<noteq> this \<longrightarrow> lastRep (heap s' a) = lastRep (heap s a)
             \<and> overRunRep (heap s' a) = overRunRep (heap s a)
             \<and> id_Reporter (heap s' a) = id_Reporter (heap s a))
     \<and> reportQueue s' = reportQueue s"
  using assms
  by (cases "lastInstantiated s")
    (auto simp: Reporter_new_id_def chain_in_def link_def Let_def split: option.splits)

lemma registry_consistent:
  "registry s xs \<Longrightarrow> (firstReporter s = None) = (lastInstantiated s = None)"
  by (cases xs) (auto simp: registry_def)

lemma registry_init: "registry (init_state h) []"
  by (simp add: registry_def init_state_def)

lemma registry_snoc:
  assumes r: "registry s xs" and a: "a \<notin> set xs"
    and l: "lastInstantiated s' = Some a"
    and f: "firstReporter s' = (if firstReporter s = None then Some a else firstReporter s)"
    and n: "\<forall>x. nextReporter (heap s' x) =
           (if x = a then None
            else if lastInstantiated s = Some x then Some a
            else nextReporter (heap s x))"
  shows "registry s' (xs @ [a])"
proof (cases "xs = []")
  case True
  with r have "firstReporter s = None" by (simp add: registry_def)
  with True r a l f n show ?thesis by (simp add: registry_def)
next
  case False
  with r have fr: "firstReporter s \<noteq> None" and la: "lastInstantiated s = Some (last xs)"
    by (cases xs; auto simp: registry_def)+
  have e: "(\<lambda>x. nextReporter (heap s' x)) =
      (\<lambda>x. if x = a then None else if x = last xs then Some a
            else nextReporter (heap s x))"
    by (rule ext) (auto simp: n la)
  from r a False
  have "chain (\<lambda>x. if x = a then None else if x = last xs then Some a
            else nextReporter (heap s x)) (firstReporter s) (xs @ [a])"
    by (intro chain_snoc) (auto simp: registry_def)
  with r a l f fr show ?thesis by (simp add: registry_def e)
qed

lemma registry_construct:
  assumes "registry s xs" and "ctor_addr c \<notin> set xs"
  shows "\<exists>s'. construct c s = Some s' \<and> registry s' (xs @ [ctor_addr c])"
proof (cases c)
  case (New this type)
  from Reporter_new_effect [OF registry_consistent [OF assms(1)], of this type]
  obtain s' where "Reporter_new this type s = Some s'" and "registry s' (xs @ [this])"
    using assms New by (auto intro!: registry_snoc [OF assms(1)])
  with New show ?thesis by simp
next
  case (NewId this type ident)
  from Reporter_new_id_effect [OF registry_consistent [OF assms(1)], of this type ident]
  obtain s' where "Reporter_new_id this type ident s = Some s'" and "registry s' (xs @ [this])"
    using assms NewId by (auto intro!: registry_snoc [OF assms(1)])
  with NewId show ?thesis by simp
qed

lemma registry_construct_all:
  assumes "registry s xs" and "distinct (xs @ map ctor_addr cs)"
  shows "\<exists>s'. construct_all cs s = Some s' \<and> registry s' (xs @ map ctor_addr cs)"
  using assms
proof (induction cs arbitrary: s xs)
  case Nil
  then show ?case by simp
next
  case (Cons c cs)
  from Cons.prems have "ctor_addr c \<notin> set xs" by auto
  from registry_construct [OF Cons.prems(1) this]
  obtain s1 where s1: "construct c s = Some s1" "registry s1 (xs @ [ctor_addr c])"
    by blast
  from Cons.prems have "distinct ((xs @ [ctor_addr c]) @ map ctor_addr cs)" by auto
  from Cons.IH [OF s1(2) this] s1(1) show ?case by simp
qed

lemma registry_traverse:
  "registry s xs \<Longrightarrow> length xs \<le> n \<Longrightarrow> traverse n s (getFirstReporter s) = Some xs"
  by (simp add: registry_def getFirstReporter_def chain_traverse)

lemma chain_queueReport [simp]:
  "nextReporter (heap (queueReport this k i now s) a) = nextReporter (heap s a)"
  "firstReporter (queueReport this k i now s) = firstReporter s"
  "lastInstantiated (queueReport this k i now s) = lastInstantiated s"
  by (cases "timeStampIn (lastRep (heap s this)) = 0";
      simp add: queueReport_fresh queueReport_overrun Let_def)+

lemma chain_tryGetReport_for [simp]:
  "nextReporter (heap (snd (snd (tryGetReport_for rd w now s))) a) = nextReporter (heap s a)"
  "firstReporter (snd (snd (tryGetReport_for rd w now s))) = firstReporter s"
  "lastInstantiated (snd (snd (tryGetReport_for rd w now s))) = lastInstantiated s"
  by (cases "reportQueue s"; cases "hd (reportQueue s)";
      simp add: tryGetReport_for_Nil tryGetReport_for_Cons)+

lemma registry_exec: "registry (snd (snd (exec calls s))) xs = registry s xs"
proof (induction calls arbitrary: s)
  case Nil
  then show ?case by simp
next
  case (Cons c calls)
  show ?case
  proof (cases c)
    case (QueueReport this k i now)
    have "snd (snd (exec (c # calls) s)) = snd (snd (exec calls (queueReport this k i now s)))"
      unfolding QueueReport by (simp split: prod.splits)
    then show ?thesis by (simp add: Cons.IH) (simp add: registry_def)
  next
    case (TryGetReportFor rd w now)
    have "snd (snd (exec (c # calls) s)) =
        snd (snd (exec calls (snd (snd (tryGetReport_for rd w now s)))))"
      unfolding TryGetReportFor by (simp split: prod.splits)
    then show ?thesis by (simp add: Cons.IH) (simp add: registry_def)
  qed
qed

lemma two_reps_construct:
  "construct_all [New 10 SERVO_REP, New 20 VL53_REP] (init_state zero_heap) = Some two_reps"
proof -
  from registry_construct_all [OF registry_init, of "[New 10 SERVO_REP, New 20 VL53_REP]" zero_heap]
  obtain s where "construct_all [New 10 SERVO_REP, New 20 VL53_REP] (init_state zero_heap) = Some s"
    by auto
  then show ?thesis by (simp add: two_reps_def)
qed

lemma one_rep_construct: "Reporter_new 10 SERVO_REP (init_state zero_heap) = Some one_rep"
  by (simp add: one_rep_def Reporter_new_def chain_in_def init_state_def Let_def)

lemma two_reps_Reporter_new: "Reporter_new 20 VL53_REP one_rep = Some two_reps"
  using two_reps_construct by (simp add: one_rep_construct split: option.splits)

lemma two_reps_Reporter_new_id: "Reporter_new_id 20 VL53_REP 200 one_rep = Some two_reps_id"
  by (simp add: two_reps_id_def one_rep_eq Reporter_new_id_def chain_in_def Let_def)

text \<open>
  C6. Before any construction \<open>getFirstReporter\<close> returns \<open>nullptr\<close>. After reporters have
  been constructed at pairwise different addresses, by either constructor, the loop from
  \<open>getFirstReporter()\<close> along \<open>getNextReporter()\<close> visits exactly these reporters in the
  order of their construction and then reaches \<open>nullptr\<close>, within as many steps as there
  are reporters; submissions and retrievals made afterwards do not change this.
\<close>

theorem registry_traversal:
  assumes "distinct (map ctor_addr cs)"
  shows "getFirstReporter (init_state h) = None
     \<and> (case construct_all cs (init_state h) of
          None \<Rightarrow> False
        | Some s \<Rightarrow>
            (\<forall>n calls. length cs \<le> n \<longrightarrow>
               traverse n (snd (snd (exec calls s)))
                 (getFirstReporter (snd (snd (exec calls s)))) = Some (map ctor_addr cs)))"
proof -
  from registry_construct_all [OF registry_init, of cs h] assms
  obtain s where "construct_all cs (init_state h) = Some s" "registry s (map ctor_addr cs)"
    by auto
  then show ?thesis
    by (simp add: registry_traverse registry_exec) (simp add: getFirstReporter_def init_state_def)
qed

theorem registry_traversal_witness:
  "distinct (map ctor_addr [New 10 SERVO_REP, New 20 VL53_REP])
   \<and> construct_all [New 10 SERVO_REP, New 20 VL53_REP] (init_state zero_heap) = Some two_reps
   \<and> traverse 2 two_reps (getFirstReporter two_reps) = Some [10, 20]
   \<and> traverse 5 (snd (snd (exec interleaved two_reps)))
        (getFirstReporter (snd (snd (exec interleaved two_reps)))) = Some [10, 20]"
proof -
  note t = registry_traversal [where cs = "[New 10 SERVO_REP, New 20 VL53_REP]"
      and h = zero_heap]
  have d: "distinct (map ctor_addr [New 10 SERVO_REP, New 20 VL53_REP])" by simp
  from t [OF d] two_reps_construct
  have a: "\<forall>n calls. 2 \<le> n \<longrightarrow>
      traverse n (snd (snd (exec calls two_reps)))
        (getFirstReporter (snd (snd (exec calls two_reps)))) = Some [10, 20]"
    by simp
  from a [rule_format, of 2 "[]"] a [rule_format, of 5 interleaved] d two_reps_construct
  show ?thesis by simp
qed

subsection \<open>What the constructors initialise\<close>

text \<open>
  C5, as amended. In a state whose chain is consistent (\<open>_firstReporter\<close> is null exactly
  when \<open>_lastInstantiated\<close> is), both constructors succeed and append the new reporter to
  the chain: it becomes \<open>_lastInstantiated\<close>, its \<open>_nextReporter\<close> is null, it becomes
  \<open>_firstReporter\<close> if there was none, and the reporter constructed before it points to it.
  The constructor \<open>Reporter(ReporterType)\<close>, which assigns the next identifier, sets
  \<open>timeStampIn\<close> and \<open>timeStampOut\<close> of the current record to 0. Neither constructor
  writes the overrun record.
\<close>

theorem constructors_effect:
  assumes "(firstReporter s = None) = (lastInstantiated s = None)"
  shows "(case Reporter_new this type s of
            None \<Rightarrow> False
          | Some s' \<Rightarrow>
              timeStampIn (lastRep (heap s' this)) = 0
              \<and> timeStampOut (lastRep (heap s' this)) = 0
              \<and> overRunRep (heap s' this) = overRunRep (heap s this)
              \<and> lastInstantiated s' = Some this
              \<and> nextReporter (heap s' this) = None
              \<and> firstReporter s' = (if firstReporter s = None then Some this else firstReporter s)
              \<and> (\<forall>l. lastInstantiated s = Some l \<and> l \<noteq> this \<longrightarrow>
                    nextReporter (heap s' l) = Some this))
       \<and> (case Reporter_new_id this type ident s of
            None \<Rightarrow> False
          | Some s' \<Rightarrow>
              overRunRep (heap s' this) = overRunRep (heap s this)
              \<and> lastInstantiated s' = Some this
              \<and> nextReporter (heap s' this) = None
              \<and> firstReporter s' = (if firstReporter s = None then Some this else firstReporter s)
              \<and> (\<forall>l. lastInstantiated s = Some l \<and> l \<noteq> this \<longrightarrow>
                    nextReporter (heap s' l) = Some this))"
proof -
  from Reporter_new_effect [OF assms, of this type]
  have a: "case Reporter_new this type s of
            None \<Rightarrow> False
          | Some s' \<Rightarrow>
              timeStampIn (lastRep (heap s' this)) = 0
              \<and> timeStampOut (lastRep (heap s' this)) = 0
              \<and> overRunRep (heap s' this) = overRunRep (heap s this)
              \<and> lastInstantiated s' = Some this
              \<and> nextReporter (heap s' this) = None
              \<and> firstReporter s' = (if firstReporter s = None then Some this else firstReporter s)
              \<and> (\<forall>l. lastInstantiated s = Some l \<and> l \<noteq> this \<longrightarrow>
                    nextReporter (heap s' l) = Some this)"
    by auto
  from Reporter_new_id_effect [OF assms, of this type ident]
  have b: "case Reporter_new_id this type ident s of
            None \<Rightarrow> False
          | Some s' \<Rightarrow>
              overRunRep (heap s' this) = overRunRep (heap s this)
              \<and> lastInstantiated s' = Some this
              \<and> nextReporter (heap s' this) = None
              \<and> firstReporter s' = (if firstReporter s = None then Some this else firstReporter s)
              \<and> (\<forall>l. lastInstantiated s = Some l \<and> l \<noteq> this \<longrightarrow>
                    nextReporter (heap s' l) = Some this)"
    by auto
  from a b show ?thesis by simp
qed

theorem constructors_effect_witness:
  "(firstReporter one_rep = None) = (lastInstantiated one_rep = None)
   \<and> Reporter_new 20 VL53_REP one_rep = Some two_reps
   \<and> timeStampIn (lastRep (heap two_reps 20)) = 0
   \<and> lastInstantiated two_reps = Some 20
   \<and> nextReporter (heap two_reps 20) = None
   \<and> firstReporter two_reps = Some 10
   \<and> nextReporter (heap two_reps 10) = Some 20
   \<and> Reporter_new_id 20 VL53_REP 200 one_rep = Some two_reps_id
   \<and> lastInstantiated two_reps_id = Some 20
   \<and> nextReporter (heap two_reps_id 20) = None
   \<and> firstReporter two_reps_id = Some 10
   \<and> nextReporter (heap two_reps_id 10) = Some 20"
proof -
  have c: "(firstReporter one_rep = None) = (lastInstantiated one_rep = None)"
    "lastInstantiated one_rep = Some 10" "firstReporter one_rep = Some 10"
    by (simp_all add: one_rep_eq)
  from constructors_effect [OF c(1), of 20 VL53_REP 200]
  show ?thesis
    by (simp add: two_reps_Reporter_new two_reps_Reporter_new_id c)
qed

text \<open>
  On storage that is not zero the overrun record keeps a nonzero \<open>timeStampIn\<close> through
  either constructor; after the constructor with a given identifier so does the current
  record.
\<close>

theorem constructors_uninitialised_counterexample:
  "Reporter_new 10 SERVO_REP (init_state stale_heap) = Some stale_new
   \<and> timeStampIn (overRunRep (heap stale_new 10)) = 7
   \<and> timeStampIn (overRunRep (heap stale_new 10)) \<noteq> 0
   \<and> Reporter_new_id 10 SERVO_REP 200 (init_state stale_heap) = Some stale_new_id
   \<and> timeStampIn (lastRep (heap stale_new_id 10)) = 5
   \<and> timeStampIn (overRunRep (heap stale_new_id 10)) = 7"
  by (simp add: stale_new_def stale_new_id_def Reporter_new_def Reporter_new_id_def
      chain_in_def init_state_def link_def stale_heap_def zero_report_def Let_def)

subsection \<open>Order of retrieval\<close>

lemma from_ref_queueReport:
  "from_ref (queueReport_rp this s) (deref (queueReport this k i now s) (queueReport_rp this s))"
  by (cases "timeStampIn (lastRep (heap s this)) = 0")
    (simp_all add: queueReport_fresh queueReport_overrun queueReport_rp_fresh
      queueReport_rp_overrun Let_def)

lemma deref_queueReport_other:
  "r \<noteq> queueReport_rp this s \<Longrightarrow> deref (queueReport this k i now s) r = deref s r"
  by (cases "timeStampIn (lastRep (heap s this)) = 0")
    (simp_all add: queueReport_fresh queueReport_overrun queueReport_rp_fresh
      queueReport_rp_overrun Let_def deref_assign del: assign.simps)

lemma from_ref_queueReport_all:
  "from_ref r (deref s r) \<Longrightarrow> from_ref r (deref (queueReport this k i now s) r)"
  by (cases "r = queueReport_rp this s") (simp_all add: from_ref_queueReport deref_queueReport_other)

lemma from_ref_stamps:
  "from_ref r (rd\<lparr>timeStampIn := a, timeStampOut := b\<rparr>) = from_ref r rd"
  by (cases r) simp_all

lemma from_ref_tryGetReport_for:
  "from_ref r (deref (snd (snd (tryGetReport_for rd w now s))) r) = from_ref r (deref s r)"
  by (cases "reportQueue s")
    (simp_all add: tryGetReport_for_Nil tryGetReport_for_Cons deref_assign from_ref_stamps)

lemma from_ref_returned:
  "reportQueue s = rsp # q \<Longrightarrow> from_ref rsp (deref s rsp) \<Longrightarrow>
   from_ref rsp (fst (snd (tryGetReport_for rd w now s)))"
  by (cases rsp) (simp_all add: tryGetReport_for_Cons)

lemma exec_fifo:
  assumes "list_all (\<lambda>r. from_ref r (deref s r)) (reportQueue s)"
  shows "map fst (fst (snd (exec calls s))) @ reportQueue (snd (snd (exec calls s))) =
           reportQueue s @ fst (exec calls s)
         \<and> list_all (\<lambda>(r, rd). from_ref r rd) (fst (snd (exec calls s)))"
  using assms
proof (induction calls arbitrary: s)
  case Nil
  then show ?case by simp
next
  case (Cons c calls)
  show ?case
  proof (cases c)
    case (QueueReport this k i now)
    let ?s1 = "queueReport this k i now s"
    let ?new = "case try_put (queueReport_rp this s) (reportQueue s) of
        Some q' \<Rightarrow> [queueReport_rp this s] | None \<Rightarrow> []"
    have q1: "reportQueue ?s1 = reportQueue s @ ?new"
      by (simp add: reportQueue_queueReport try_put_16)
    have "list_all (\<lambda>r. from_ref r (deref ?s1 r)) (reportQueue ?s1)"
      using Cons.prems
      by (auto simp: q1 list_all_iff from_ref_queueReport_all from_ref_queueReport try_put_16)
    from Cons.IH [OF this]
    have ih: "map fst (fst (snd (exec calls ?s1))) @ reportQueue (snd (snd (exec calls ?s1))) =
           reportQueue ?s1 @ fst (exec calls ?s1)"
      "list_all (\<lambda>(r, rd). from_ref r rd) (fst (snd (exec calls ?s1)))"
      by simp_all
    have e: "exec (c # calls) s =
        (?new @ fst (exec calls ?s1), fst (snd (exec calls ?s1)), snd (snd (exec calls ?s1)))"
      unfolding QueueReport by (simp split: prod.splits)
    show ?thesis unfolding e using ih by (simp add: q1)
  next
    case (TryGetReportFor rd w now)
    let ?s1 = "snd (snd (tryGetReport_for rd w now s))"
    let ?rd = "fst (snd (tryGetReport_for rd w now s))"
    let ?got = "case try_get_for w (reportQueue s) of
        Some (rsp, q') \<Rightarrow> [(rsp, ?rd)] | None \<Rightarrow> []"
    have q1: "map fst ?got @ reportQueue ?s1 = reportQueue s"
      by (cases "reportQueue s")
        (simp_all add: tryGetReport_for_Nil tryGetReport_for_Cons try_get_for_def)
    have g: "list_all (\<lambda>(r, rd). from_ref r rd) ?got"
      using Cons.prems
      by (cases "reportQueue s") (simp_all add: try_get_for_def from_ref_returned)
    have "set (reportQueue ?s1) \<subseteq> set (reportQueue s)"
      by (cases "reportQueue s") (auto simp: tryGetReport_for_Nil tryGetReport_for_Cons)
    then have "list_all (\<lambda>r. from_ref r (deref ?s1 r)) (reportQueue ?s1)"
      using Cons.prems by (auto simp: list_all_iff from_ref_tryGetReport_for)
    from Cons.IH [OF this]
    have ih: "map fst (fst (snd (exec calls ?s1))) @ reportQueue (snd (snd (exec calls ?s1))) =
           reportQueue ?s1 @ fst (exec calls ?s1)"
      "list_all (\<lambda>(r, rd). from_ref r rd) (fst (snd (exec calls ?s1)))"
      by simp_all
    have e: "exec (c # calls) s =
        (fst (exec calls ?s1), ?got @ fst (snd (exec calls ?s1)), snd (snd (exec calls ?s1)))"
      unfolding TryGetReportFor by (auto split: prod.splits option.splits)
    have "map fst (?got @ fst (snd (exec calls ?s1))) @ reportQueue (snd (snd (exec calls ?s1))) =
        map fst ?got @ reportQueue ?s1 @ fst (exec calls ?s1)"
      using ih(1) by simp
    also have "\<dots> = reportQueue s @ fst (exec calls ?s1)"
      using q1 by (metis append_assoc)
    finally show ?thesis unfolding e using ih(2) g by simp
  qed
qed

lemma mixed_exec:
  "fst (exec mixed_calls two_reps) =
     [LastRepOf 10, LastRepOf 20, OverRunRepOf 10, LastRepOf 10]"
  "map fst (fst (snd (exec mixed_calls two_reps))) = [LastRepOf 10, LastRepOf 20, OverRunRepOf 10]"
  "map snd (fst (snd (exec mixed_calls two_reps))) =
     [\<lparr>repType = LOCO_STOP, source = Some 10, timeStampIn = 100, timeStampOut = 300, info = 7\<rparr>,
      \<lparr>repType = VL53_RANGE_CLOSE, source = Some 20, timeStampIn = 150, timeStampOut = 500, info = 3\<rparr>,
      \<lparr>repType = REPORT_OVERRUN, source = Some 10, timeStampIn = 200, timeStampOut = 600, info = 5\<rparr>]"
  "reportQueue (snd (snd (exec mixed_calls two_reps))) = [LastRepOf 10]"
  by (simp_all add: mixed_calls_def two_reps_eq queueReport_overrun queueReport_fresh
      tryGetReport_for_Cons queueReport_rp_def try_put_16 try_get_for_def zero_report_def Let_def)

text \<open>
  C3. In every run of submissions and retrievals that starts with an empty queue, the
  references taken by the successful calls of \<open>tryGetReport\<close> are, in the order of the
  calls, the first of the references inserted by \<open>queueReport\<close>, in the order of their
  insertion, and the queue holds the remaining ones in that order. Every record returned
  names the reporter that owns the reference as its source (so the reporters appear in the
  order of their successful submissions), and a record returned for an overrun reference
  has the kind \<open>REPORT_OVERRUN\<close>.
\<close>

theorem fifo_order:
  assumes "reportQueue s = []" and "exec calls s = (ins, outs, s')"
  shows "map fst outs = take (length outs) ins
         \<and> reportQueue s' = drop (length outs) ins
         \<and> list_all (\<lambda>(r, rd). from_ref r rd) outs
         \<and> map (\<lambda>(r, rd). source rd) outs = map (\<lambda>r. Some (owner r)) (take (length outs) ins)"
proof -
  from exec_fifo [of s calls] assms
  have a: "map fst outs @ reportQueue s' = ins" and b: "list_all (\<lambda>(r, rd). from_ref r rd) outs"
    by simp_all
  from a have c: "map fst outs = take (length outs) ins" "reportQueue s' = drop (length outs) ins"
    by (metis append_eq_conv_conj length_map)+
  have "source rd = Some (owner r)" if "from_ref r rd" for r rd
    using that by (cases r) simp_all
  with b have "map (\<lambda>(r, rd). source rd) outs = map (\<lambda>r. Some (owner r)) (map fst outs)"
    by (induction outs) auto
  with b c show ?thesis by simp
qed

theorem fifo_order_witness:
  "reportQueue two_reps = []
   \<and> fst (exec mixed_calls two_reps) =
       [LastRepOf 10, LastRepOf 20, OverRunRepOf 10, LastRepOf 10]
   \<and> map fst (fst (snd (exec mixed_calls two_reps))) =
       take 3 (fst (exec mixed_calls two_reps))
   \<and> map (\<lambda>(r, rd). source rd) (fst (snd (exec mixed_calls two_reps))) =
       [Some 10, Some 20, Some 10]
   \<and> reportQueue (snd (snd (exec mixed_calls two_reps))) = [LastRepOf 10]"
proof -
  have q: "reportQueue two_reps = []" by (simp add: two_reps_eq)
  have e: "exec mixed_calls two_reps =
      (fst (exec mixed_calls two_reps), fst (snd (exec mixed_calls two_reps)),
       snd (snd (exec mixed_calls two_reps)))"
    by simp
  have "length (map fst (fst (snd (exec mixed_calls two_reps)))) = 3"
    unfolding mixed_exec by simp
  then have l: "length (fst (snd (exec mixed_calls two_reps))) = 3" by simp
  from fifo_order [OF q e] show ?thesis using q by (simp add: mixed_exec l)
qed

end
